theory Spec2Isabelle
  imports Complex_Main "HOL-Library.Log_Nat" "HOL-Library.Char_ord" "HOL-Library.List_Lexorder"
    "HOL-Library.Multiset"
begin

section \<open>Python strings\<close>

text \<open>
  A Python \<open>str\<close> is modelled as a \<open>string\<close> whose characters are the code points
  below 256 (Latin-1). On these code points \<open>str.isspace\<close> (the characters \<open>str.strip\<close>
  and \<open>str.split\<close> remove), \<open>str.lower\<close> and the regular-expression class \<open>\d\<close> are
  exactly the functions below.
\<close>

datatype error =
  NameError string | IndexError | OverflowError | ZeroDivisionError | AttributeError | ValueError

definition isspace :: "char \<Rightarrow> bool" where
  "isspace c = ((of_char c :: nat) \<in> {9, 10, 11, 12, 13, 28, 29, 30, 31, 32, 133, 160})"

definition lower_char :: "char \<Rightarrow> char" where
  "lower_char c =
     (let n = (of_char c :: nat)
      in if (65 \<le> n \<and> n \<le> 90) \<or> (192 \<le> n \<and> n \<le> 222 \<and> n \<noteq> 215)
         then char_of (n + 32) else c)"

definition lower :: "string \<Rightarrow> string" where
  "lower s = map lower_char s"

definition lstrip :: "string \<Rightarrow> string" where
  "lstrip s = dropWhile isspace s"

definition rstrip :: "string \<Rightarrow> string" where
  "rstrip s = rev (dropWhile isspace (rev s))"

definition strip :: "string \<Rightarrow> string" where
  "strip s = rstrip (lstrip s)"

definition isdigit :: "char \<Rightarrow> bool" where
  "isdigit c = (48 \<le> (of_char c :: nat) \<and> (of_char c :: nat) \<le> 57)"

text \<open>\<open>re.split(r':::', s)\<close>: the pieces between the leftmost non-overlapping
  occurrences of the separator; \<open>cur\<close> is the piece being read.\<close>

fun re_split_colons :: "string \<Rightarrow> string \<Rightarrow> string list" where
  "re_split_colons cur [] = [cur]"
| "re_split_colons cur (c # rest) =
     (if take 3 (c # rest) = '':::'' then cur # re_split_colons [] (drop 2 rest)
      else re_split_colons (cur @ [c]) rest)"

section \<open>compare\_calls.py\<close>

definition normalize_call :: "string \<Rightarrow> string" where
  "normalize_call call =
     (if call = [] \<or> lower call \<in> set [''na'', ''nan'', ''none'', [], ''unclassified'']
      then [] else lower (strip call))"

definition is_empty :: "string \<Rightarrow> bool" where
  "is_empty call = (normalize_call call = [])"

definition extract_base_plasmid_calls :: "string \<Rightarrow> string set" where
  "extract_base_plasmid_calls call =
     (if is_empty call then {}
      else let parts = re_split_colons [] (normalize_call call)
           in set (filter (\<lambda>p. p \<noteq> []) (map strip parts)))"

text \<open>\<open>re.sub(r'\*+$', '', call.strip())\<close>: the stripped call has no trailing newline, so
  \<open>$\<close> is the end of the string and the match is the trailing run of stars.\<close>

definition strip_suffix :: "string \<Rightarrow> string" where
  "strip_suffix call = rev (dropWhile (\<lambda>c. c = CHR ''*'') (rev (strip call)))"

text \<open>\<open>re.match(r'^((?:cp|lp)\d+)', call)\<close>: group 1, or \<open>None\<close>.\<close>

definition match_family :: "string \<Rightarrow> string option" where
  "match_family call =
     (if (take 2 call = ''cp'' \<or> take 2 call = ''lp'') \<and> takeWhile isdigit (drop 2 call) \<noteq> []
      then Some (take 2 call @ takeWhile isdigit (drop 2 call)) else None)"

definition get_replicon_family :: "string \<Rightarrow> string option" where
  "get_replicon_family call0 =
     (let call = normalize_call (strip_suffix call0)
      in if call = [] \<or> call = ''unclassified'' then None
         else case match_family call of Some g \<Rightarrow> Some g | None \<Rightarrow> Some call)"

datatype category =
    exact_match | annotation_suffix | extra_annotation | base_match | same_family_tiebreak
  | auto_chromosome | manual_override | partial_overlap | different | new_unclassified
  | old_unclassified | old_only | new_only

text \<open>Reading a name: \<open>scope\<close> lists the set-valued names bound where the name is read.
  A name bound nowhere (not a local, not a module global, not a builtin) raises
  \<open>NameError\<close>.\<close>

definition read_name :: "(string \<times> 'a) list \<Rightarrow> string \<Rightarrow> error + 'a" where
  "read_name scope n = (case map_of scope n of None \<Rightarrow> Inl (NameError n) | Some v \<Rightarrow> Inr v)"

text \<open>Lines 112 to 136 of \<open>categorize\<close>. The two assignments bind \<open>old_base_calls\<close> and
  \<open>new_base_calls\<close>; the tests read \<open>old_base_plasmid_calls\<close> (first, line 116) and
  \<open>new_base_plasmid_calls\<close> (line 116 or 120, before any \<open>return\<close>). The module binds
  neither name: its globals are its imports and its own functions.\<close>

definition categorize_compound :: "string \<Rightarrow> string \<Rightarrow> error + (category \<times> string)" where
  "categorize_compound old_call new_call =
     (let scope = [(''old_base_calls'', extract_base_plasmid_calls old_call),
                   (''new_base_calls'', extract_base_plasmid_calls new_call)]
      in case read_name scope ''old_base_plasmid_calls'' of
           Inl e \<Rightarrow> Inl e
         | Inr old_base_plasmid_calls \<Rightarrow>
            (case read_name scope ''new_base_plasmid_calls'' of
               Inl e \<Rightarrow> Inl e
             | Inr new_base_plasmid_calls \<Rightarrow>
                if old_base_plasmid_calls \<noteq> {} \<and> old_base_plasmid_calls \<subseteq> new_base_plasmid_calls
                then Inr (extra_annotation, strip old_call)
                else if new_base_plasmid_calls \<noteq> {} \<and> new_base_plasmid_calls \<subseteq> old_base_plasmid_calls
                then Inr (base_match, strip old_call)
                else if old_base_plasmid_calls \<inter> new_base_plasmid_calls \<noteq> {}
                then Inr (partial_overlap, strip old_call)
                else (let old_fam = get_replicon_family old_call;
                          new_fam = get_replicon_family new_call
                      in if old_fam \<noteq> None \<and> old_fam \<noteq> Some [] \<and> new_fam \<noteq> None
                            \<and> new_fam \<noteq> Some [] \<and> old_fam = new_fam
                         then Inr (same_family_tiebreak, strip old_call)
                         else Inr (different, strip old_call))))"

definition categorize :: "string \<Rightarrow> string \<Rightarrow> error + (category \<times> string)" where
  "categorize old_call new_call =
     (let old_norm = normalize_call old_call;
          new_norm = normalize_call new_call
      in if is_empty old_call \<and> is_empty new_call then Inr (exact_match, [])
         else if \<not> is_empty old_call \<and> is_empty new_call
         then Inr (new_unclassified, strip old_call)
         else if is_empty old_call \<and> \<not> is_empty new_call
         then Inr (old_unclassified, strip new_call)
         else if old_norm = new_norm then Inr (exact_match, strip old_call)
         else if strip_suffix old_norm = strip_suffix new_norm
         then Inr (annotation_suffix, strip old_call)
         else categorize_compound old_call new_call)"

text \<open>The body of the loop of \<open>main\<close> for one key (lines 258 to 310). The three tables
  are the dictionaries read from the input files; \<open>auto_chromosome_bp\<close> is the command-line
  threshold (0 = disabled). An exception of \<open>categorize\<close> is not caught.\<close>

type_synonym key = "string \<times> string"

record comparison_row =
  row_assembly_id :: string
  row_contig_id :: string
  row_contig_len :: int
  row_old_call :: string
  row_new_call :: string
  row_category :: category
  row_resolved_call :: string

definition compare_key ::
  "int \<Rightarrow> (key \<rightharpoonup> string) \<Rightarrow> (key \<rightharpoonup> string) \<Rightarrow> (key \<rightharpoonup> int) \<Rightarrow> (key \<rightharpoonup> string)
     \<Rightarrow> key \<Rightarrow> error + comparison_row" where
  "compare_key auto_chromosome_bp old_calls new_calls contig_lengths overrides k =
     (let old_call = (case old_calls k of None \<Rightarrow> [] | Some c \<Rightarrow> c);
          new_call = (case new_calls k of None \<Rightarrow> [] | Some c \<Rightarrow> c);
          clen = (case contig_lengths k of None \<Rightarrow> 0 | Some n \<Rightarrow> n)
      in case (if new_calls k = None then Inr (old_only, old_call)
               else if old_calls k = None then Inr (new_only, new_call)
               else categorize old_call new_call) of
           Inl e \<Rightarrow> Inl e
         | Inr (cat0, resolved0) \<Rightarrow>
            (let (cat1, resolved1) =
                   (if 0 < auto_chromosome_bp \<and> cat0 = different
                       \<and> normalize_call new_call = ''chromosome'' \<and> auto_chromosome_bp \<le> clen
                    then (auto_chromosome, strip new_call) else (cat0, resolved0));
                 (cat2, resolved2) =
                   (if 0 < auto_chromosome_bp \<and> cat1 = different
                       \<and> normalize_call old_call = ''chromosome'' \<and> \<not> is_empty new_call
                       \<and> normalize_call new_call \<noteq> ''chromosome'' \<and> clen < auto_chromosome_bp
                    then (auto_chromosome, strip new_call) else (cat1, resolved1));
                 (cat3, resolved3) =
                   (case overrides k of
                      None \<Rightarrow> (cat2, resolved2)
                    | Some v \<Rightarrow> (if cat2 \<noteq> exact_match then manual_override else cat2, v))
             in Inr \<lparr>row_assembly_id = fst k, row_contig_id = snd k, row_contig_len = clen,
                     row_old_call = old_call, row_new_call = new_call,
                     row_category = cat3, row_resolved_call = resolved3\<rparr>))"

section \<open>Python floats\<close>

text \<open>
  A Python \<open>float\<close> is an IEEE-754 binary64 value: a finite value is modelled by the rational
  it denotes (the two zeros are one value; they compare equal and no operation below
  divides by a zero), beside the two infinities and NaN. \<open>round_double\<close> rounds a rational
  to the nearest binary64 value, ties to even, with gradual underflow (the exponent of
  the last place is at least -1074) and overflow to infinity (when the rounded magnitude
  reaches 2 to the 1024); it is the rounding of every correctly rounded operation.
\<close>

datatype pyfloat = Fin rat | PosInf | NegInf | NaN

definition pow2 :: "int \<Rightarrow> rat" where
  "pow2 e = (if 0 \<le> e then 2 ^ nat e else 1 / 2 ^ nat (- e))"

definition round_half_even :: "rat \<Rightarrow> int" where
  "round_half_even x =
     (let f = \<lfloor>x\<rfloor>; d = x - of_int f
      in if d < 1 / 2 then f else if 1 / 2 < d then f + 1 else if even f then f else f + 1)"

text \<open>\<open>floor_log2 x\<close> is the integer \<open>k\<close> with \<open>2 ^ k \<le> x < 2 ^ (k + 1)\<close>, for \<open>0 < x\<close>.\<close>

definition floor_log2 :: "rat \<Rightarrow> int" where
  "floor_log2 x =
     (if 1 \<le> x then bitlen \<lfloor>x\<rfloor> - 1 else - bitlen (\<lceil>1 / x\<rceil> - 1))"

definition round_double :: "rat \<Rightarrow> pyfloat" where
  "round_double x =
     (if x = 0 then Fin 0
      else let e = max (floor_log2 \<bar>x\<bar> - 52) (- 1074);
               r = of_int (round_half_even (x / pow2 e)) * pow2 e
           in if r \<noteq> 0 \<and> 1024 \<le> floor_log2 \<bar>r\<bar> then (if 0 < x then PosInf else NegInf)
              else Fin r)"

text \<open>Comparison \<open>x <= y\<close> (false when either side is NaN), and \<open>x / y\<close>, which raises
  \<open>ZeroDivisionError\<close> on a zero divisor before anything else is looked at.\<close>

fun fle :: "pyfloat \<Rightarrow> pyfloat \<Rightarrow> bool" where
  "fle NaN y = False"
| "fle x NaN = False"
| "fle NegInf y = True"
| "fle x PosInf = True"
| "fle (Fin a) (Fin b) = (a \<le> b)"
| "fle PosInf y = False"
| "fle x NegInf = False"

fun truediv :: "pyfloat \<Rightarrow> pyfloat \<Rightarrow> error + pyfloat" where
  "truediv x (Fin b) =
     (if b = 0 then Inl ZeroDivisionError
      else case x of
             Fin a \<Rightarrow> Inr (round_double (a / b))
           | PosInf \<Rightarrow> Inr (if 0 < b then PosInf else NegInf)
           | NegInf \<Rightarrow> Inr (if 0 < b then NegInf else PosInf)
           | NaN \<Rightarrow> Inr NaN)"
| "truediv x NaN = Inr NaN"
| "truediv (Fin a) y = Inr (Fin 0)"
| "truediv x y = Inr NaN"

text \<open>\<open>x < y\<close> (false when either side is NaN).\<close>

definition flt :: "pyfloat \<Rightarrow> pyfloat \<Rightarrow> bool" where
  "flt x y = (fle x y \<and> \<not> fle y x)"

text \<open>\<open>x * y\<close>, the correctly rounded product, and \<open>-x\<close>.\<close>

fun fmul :: "pyfloat \<Rightarrow> pyfloat \<Rightarrow> pyfloat" where
  "fmul (Fin a) (Fin b) = round_double (a * b)"
| "fmul NaN y = NaN"
| "fmul x NaN = NaN"
| "fmul (Fin a) PosInf = (if a = 0 then NaN else if 0 < a then PosInf else NegInf)"
| "fmul (Fin a) NegInf = (if a = 0 then NaN else if 0 < a then NegInf else PosInf)"
| "fmul PosInf (Fin b) = (if b = 0 then NaN else if 0 < b then PosInf else NegInf)"
| "fmul NegInf (Fin b) = (if b = 0 then NaN else if 0 < b then NegInf else PosInf)"
| "fmul PosInf PosInf = PosInf"
| "fmul PosInf NegInf = NegInf"
| "fmul NegInf PosInf = NegInf"
| "fmul NegInf NegInf = PosInf"

fun fneg :: "pyfloat \<Rightarrow> pyfloat" where
  "fneg (Fin a) = Fin (- a)"
| "fneg PosInf = NegInf"
| "fneg NegInf = PosInf"
| "fneg NaN = NaN"

text \<open>\<open>a / b\<close> on two integers is the correctly rounded quotient.\<close>

definition int_truediv :: "nat \<Rightarrow> nat \<Rightarrow> error + pyfloat" where
  "int_truediv a b =
     (if b = 0 then Inl ZeroDivisionError else Inr (round_double (of_nat a / of_nat b)))"

text \<open>\<open>round(x, 3)\<close>: the exact value of \<open>x\<close> rounded to three decimals, ties to even, and
  the decimal read back as a float.\<close>

definition round3 :: "pyfloat \<Rightarrow> pyfloat" where
  "round3 x =
     (case x of Fin q \<Rightarrow> round_double (of_int (round_half_even (q * 1000)) / 1000) | _ \<Rightarrow> x)"

section \<open>generate\_chromosome\_lists.py\<close>

text \<open>
  One row of the classifier table, as \<open>csv.DictReader\<close> yields it for one assembly (the
  rows of \<open>assemblies[assembly_id]\<close>, whose \<open>assembly_id\<close> cell was stripped at line 164
  and is not empty). The fields \<open>contig_id\<close> and \<open>plasmid_name\<close> (the call column) hold
  \<open>row.get(column, "")\<close>: the text of the cell, the empty string when the table has no such
  column, and \<open>None\<close> when the row is shorter than the header and the cell is missing
  (\<open>DictReader\<close> fills a short row with \<open>None\<close>); \<open>.strip()\<close> on \<open>None\<close> raises
  \<open>AttributeError\<close>. Each numeric field holds \<open>float(row.get(column, default))\<close>, and is
  \<open>None\<close> when \<open>float\<close> raises \<open>ValueError\<close> or \<open>TypeError\<close> (an empty, non-numeric or
  missing cell).
\<close>

record classifier_row =
  assembly_id :: string
  contig_id :: "string option"
  plasmid_name :: "string option"
  contig_len :: "pyfloat option"
  ref_covered_length :: "pyfloat option"
  ref_length :: "pyfloat option"
  query_coverage_percent :: "pyfloat option"
  overall_percent_identity :: "pyfloat option"

text \<open>\<open>s.split()\<close>: the maximal runs of non-whitespace characters.\<close>

fun split_ws :: "string \<Rightarrow> string \<Rightarrow> string list" where
  "split_ws cur [] = (if cur = [] then [] else [cur])"
| "split_ws cur (c # cs) =
     (if isspace c then (if cur = [] then split_ws [] cs else cur # split_ws [] cs)
      else split_ws (cur @ [c]) cs)"

definition parse_contig_name :: "string \<Rightarrow> error + string" where
  "parse_contig_name cid =
     (case split_ws [] (strip cid) of [] \<Rightarrow> Inl IndexError | t # ts \<Rightarrow> Inr t)"

definition infer_topology :: "string \<Rightarrow> string" where
  "infer_topology name =
     (let n = strip (lower name)
      in if take 2 n = ''cp'' then ''circular''
         else if take 2 n = ''lp'' \<or> n = ''chromosome'' then ''linear''
         else ''linear'')"

definition sanitize_replicon_name :: "string \<Rightarrow> string" where
  "sanitize_replicon_name name0 =
     (let name = map (\<lambda>c. if c = CHR ''+'' then CHR ''-'' else c) name0
      in if lower name = ''chromosome'' then ''main'' else name)"

definition infer_chromosome_type :: "string \<Rightarrow> string" where
  "infer_chromosome_type name =
     (if strip (lower name) = ''chromosome'' then ''Chromosome'' else ''Plasmid'')"

text \<open>\<open>str.capitalize\<close> on the letters a to z and the Latin-1 letters whose capital is a
  Latin-1 letter; the source applies it to \<open>linear\<close> and \<open>circular\<close> only.\<close>

definition upper_char :: "char \<Rightarrow> char" where
  "upper_char c =
     (let n = (of_char c :: nat)
      in if (97 \<le> n \<and> n \<le> 122) \<or> (224 \<le> n \<and> n \<le> 254 \<and> n \<noteq> 247)
         then char_of (n - 32) else c)"

definition capitalize :: "string \<Rightarrow> string" where
  "capitalize s = (case s of [] \<Rightarrow> [] | c # cs \<Rightarrow> upper_char c # lower cs)"

definition format_topology :: "string \<Rightarrow> string \<Rightarrow> string" where
  "format_topology topology chrom_type = capitalize topology @ ''-'' @ chrom_type"

definition tab :: string where
  "tab = [char_of (9 :: nat)]"

definition compute_ref_coverage :: "pyfloat option \<Rightarrow> pyfloat option \<Rightarrow> error + pyfloat option" where
  "compute_ref_coverage ref_covered ref_len =
     (case ref_covered of
        None \<Rightarrow> Inr None
      | Some rcl \<Rightarrow>
         (case ref_len of
            None \<Rightarrow> Inr None
          | Some rl \<Rightarrow>
             if fle rl (Fin 0) then Inr None
             else (case truediv rcl rl of Inl e \<Rightarrow> Inl e | Inr v \<Rightarrow> Inr (Some v))))"

text \<open>\<open>float(cell) / 100.0\<close>, and 0.0 when \<open>float\<close> raised.\<close>

definition percent_fraction :: "pyfloat option \<Rightarrow> error + pyfloat" where
  "percent_fraction cell = (case cell of None \<Rightarrow> Inr (Fin 0) | Some v \<Rightarrow> truediv v (Fin 100))"

definition passes_completeness ::
  "classifier_row \<Rightarrow> pyfloat \<Rightarrow> pyfloat \<Rightarrow> pyfloat \<Rightarrow> error + bool" where
  "passes_completeness row ref_cov_thresh query_cov_thresh identity_thresh =
     (case compute_ref_coverage (ref_covered_length row) (ref_length row) of
        Inl e \<Rightarrow> Inl e
      | Inr ref_cov \<Rightarrow>
         (case percent_fraction (query_coverage_percent row) of
            Inl e \<Rightarrow> Inl e
          | Inr q_cov \<Rightarrow>
             (case percent_fraction (overall_percent_identity row) of
                Inl e \<Rightarrow> Inl e
              | Inr ident \<Rightarrow>
                 Inr (case ref_cov of
                        None \<Rightarrow> False
                      | Some rc \<Rightarrow> fle ref_cov_thresh rc \<and> fle query_cov_thresh q_cov
                                   \<and> fle identity_thresh ident))))"

text \<open>What the loop of \<open>main\<close> builds for one assembly: the two line lists, and what
  it adds to the three counters.\<close>

record placement =
  chrom_lines :: "string list"
  unloc_lines :: "string list"
  total_placed :: nat
  total_unlocalised :: nat
  total_unplaced :: nat

definition no_placement :: placement where
  "no_placement = \<lparr>chrom_lines = [], unloc_lines = [], total_placed = 0,
                    total_unlocalised = 0, total_unplaced = 0\<rparr>"

text \<open>\<open>int(float(cell))\<close> inside \<open>try ... except (ValueError, TypeError)\<close>: truncation towards
  zero; \<open>int\<close> of NaN raises \<open>ValueError\<close> (caught, so 0), \<open>int\<close> of an infinity raises
  \<open>OverflowError\<close>, which is not caught.\<close>

definition contig_len_int :: "pyfloat option \<Rightarrow> error + int" where
  "contig_len_int cell =
     (case cell of
        None \<Rightarrow> Inr 0
      | Some (Fin q) \<Rightarrow> Inr (if 0 \<le> q then \<lfloor>q\<rfloor> else \<lceil>q\<rceil>)
      | Some NaN \<Rightarrow> Inr 0
      | Some PosInf \<Rightarrow> Inl OverflowError
      | Some NegInf \<Rightarrow> Inl OverflowError)"

text \<open>\<open>by_replicon[call].append(item)\<close> on a \<open>defaultdict(list)\<close>, kept in insertion order.\<close>

fun append_item :: "('k \<times> 'v list) list \<Rightarrow> 'k \<Rightarrow> 'v \<Rightarrow> ('k \<times> 'v list) list" where
  "append_item [] k v = [(k, [v])]"
| "append_item ((k', vs) # d) k v =
     (if k' = k then (k', vs @ [v]) # d else (k', vs) # append_item d k v)"

text \<open>\<open>row.get(column, "").strip()\<close>.\<close>

definition strip_cell :: "string option \<Rightarrow> error + string" where
  "strip_cell cell = (case cell of None \<Rightarrow> Inl AttributeError | Some s \<Rightarrow> Inr (strip s))"

fun group_by_replicon ::
  "classifier_row list \<Rightarrow> (string \<times> (int \<times> classifier_row) list) list \<Rightarrow> nat
     \<Rightarrow> error + ((string \<times> (int \<times> classifier_row) list) list \<times> nat)" where
  "group_by_replicon [] by_replicon unplaced = Inr (by_replicon, unplaced)"
| "group_by_replicon (row # rows) by_replicon unplaced =
     (case strip_cell (plasmid_name row) of
        Inl e \<Rightarrow> Inl e
      | Inr call \<Rightarrow>
         if call = [] \<or> lower call = ''unclassified''
         then group_by_replicon rows by_replicon (unplaced + 1)
         else (case contig_len_int (contig_len row) of
                 Inl e \<Rightarrow> Inl e
               | Inr clen \<Rightarrow> group_by_replicon rows (append_item by_replicon call (clen, row)) unplaced))"

text \<open>The loop over \<open>enumerate(contig_list)\<close>: index 0 is the primary, the rest are
  fragments.\<close>

fun place_contigs ::
  "string \<Rightarrow> string \<Rightarrow> nat \<Rightarrow> (int \<times> classifier_row) list \<Rightarrow> placement \<Rightarrow> error + placement" where
  "place_contigs replicon ena_name i [] st = Inr st"
| "place_contigs replicon ena_name i ((clen, row) # rest) st =
     (case strip_cell (contig_id row) of
        Inl e \<Rightarrow> Inl e
      | Inr cid \<Rightarrow>
         (case parse_contig_name cid of
            Inl e \<Rightarrow> Inl e
          | Inr object_name \<Rightarrow>
             (let topo_type = format_topology (infer_topology replicon) (infer_chromosome_type replicon)
              in place_contigs replicon ena_name (i + 1) rest
                   (if i = 0
                    then st\<lparr>chrom_lines := chrom_lines st @ [object_name @ tab @ ena_name @ tab @ topo_type],
                            total_placed := total_placed st + 1\<rparr>
                    else st\<lparr>unloc_lines := unloc_lines st @ [object_name @ tab @ ena_name],
                            total_unlocalised := total_unlocalised st + 1\<rparr>))))"

text \<open>The loop over \<open>sorted(by_replicon.items())\<close>; \<open>contig_list.sort(key=..., reverse=True)\<close>
  is the stable sort by descending length.\<close>

fun place_replicons ::
  "(string \<times> (int \<times> classifier_row) list) list \<Rightarrow> placement \<Rightarrow> error + placement" where
  "place_replicons [] st = Inr st"
| "place_replicons ((replicon, contig_list) # items) st =
     (case place_contigs replicon (sanitize_replicon_name replicon) 0
             (sort_key (\<lambda>x. - fst x) contig_list) st of
        Inl e \<Rightarrow> Inl e
      | Inr st' \<Rightarrow> place_replicons items st')"

definition classified_mode :: "classifier_row list \<Rightarrow> error + placement" where
  "classified_mode contigs =
     (case group_by_replicon contigs [] 0 of
        Inl e \<Rightarrow> Inl e
      | Inr (by_replicon, unplaced) \<Rightarrow>
         place_replicons (sort_key fst by_replicon) (no_placement\<lparr>total_unplaced := unplaced\<rparr>))"

fun complete_loop ::
  "pyfloat \<Rightarrow> pyfloat \<Rightarrow> pyfloat \<Rightarrow> classifier_row list \<Rightarrow> placement \<Rightarrow> error + placement" where
  "complete_loop ref_cov query_cov identity [] st = Inr st"
| "complete_loop ref_cov query_cov identity (row # rows) st =
     (case strip_cell (contig_id row) of
        Inl e \<Rightarrow> Inl e
      | Inr cid \<Rightarrow>
         (case strip_cell (plasmid_name row) of
            Inl e \<Rightarrow> Inl e
          | Inr pname \<Rightarrow>
             if cid = [] \<or> pname = [] then complete_loop ref_cov query_cov identity rows st
             else (case passes_completeness row ref_cov query_cov identity of
                     Inl e \<Rightarrow> Inl e
                   | Inr passes \<Rightarrow>
                      if passes
                      then (case parse_contig_name cid of
                              Inl e \<Rightarrow> Inl e
                            | Inr object_name \<Rightarrow>
                               complete_loop ref_cov query_cov identity rows
                                 (st\<lparr>chrom_lines := chrom_lines st @
                                        [object_name @ tab @ sanitize_replicon_name pname @ tab @
                                         format_topology (infer_topology pname)
                                           (infer_chromosome_type pname)],
                                     total_placed := total_placed st + 1\<rparr>))
                      else complete_loop ref_cov query_cov identity rows
                             (st\<lparr>total_unplaced := total_unplaced st + 1\<rparr>))))"

definition complete_mode ::
  "pyfloat \<Rightarrow> pyfloat \<Rightarrow> pyfloat \<Rightarrow> classifier_row list \<Rightarrow> error + placement" where
  "complete_mode ref_cov query_cov identity contigs =
     complete_loop ref_cov query_cov identity contigs no_placement"

section \<open>add\_replicon\_to\_gml.py\<close>

text \<open>\<open>Counter(replicon_list)\<close>: the counts, in order of first occurrence.\<close>

fun counter_add :: "(string \<times> nat) list \<Rightarrow> string \<Rightarrow> (string \<times> nat) list" where
  "counter_add [] k = [(k, 1)]"
| "counter_add ((k', n) # d) k = (if k' = k then (k', n + 1) # d else (k', n) # counter_add d k)"

definition Counter :: "string list \<Rightarrow> (string \<times> nat) list" where
  "Counter xs = foldl counter_add [] xs"

text \<open>\<open>counts.most_common(1)[0]\<close> is \<open>max(counts.items(), key=count)\<close>: the first item of
  the largest count. \<open>counts.most_common()\<close> is the stable sort by descending count.\<close>

fun max_first :: "(string \<times> nat) \<Rightarrow> (string \<times> nat) list \<Rightarrow> (string \<times> nat)" where
  "max_first best [] = best"
| "max_first best (x # xs) = max_first (if snd best < snd x then x else best) xs"

definition most_common :: "(string \<times> nat) list \<Rightarrow> (string \<times> nat) list" where
  "most_common counts = sort_key (\<lambda>x. - int (snd x)) counts"

function str_nat :: "nat \<Rightarrow> string" where
  "str_nat n =
     (if n < 10 then [char_of (48 + n)] else str_nat (n div 10) @ [char_of (48 + n mod 10)])"
  by pat_completeness auto
termination
  by (relation "measure (\<lambda>n. n)") auto

declare str_nat.simps [simp del]

fun join :: "string \<Rightarrow> string list \<Rightarrow> string" where
  "join sep [] = []"
| "join sep [x] = x"
| "join sep (x # y # ys) = x @ sep @ join sep (y # ys)"

record consensus =
  consensus_replicon :: string
  top_replicon :: string
  consensus_fraction :: pyfloat
  n_isolates :: nat
  all_replicons :: string

definition assign_consensus_replicon :: "string list \<Rightarrow> pyfloat \<Rightarrow> error + consensus" where
  "assign_consensus_replicon replicon_list threshold =
     (let counts = Counter replicon_list;
          total = length replicon_list
      in if total = 0
         then Inr \<lparr>consensus_replicon = ''unknown'', top_replicon = ''unknown'',
                   consensus_fraction = Fin 0, n_isolates = 0, all_replicons = ''unknown''\<rparr>
         else (case counts of
                 [] \<Rightarrow> Inl IndexError
               | c # cs \<Rightarrow>
                  (let (top, top_count) = max_first c cs
                   in case int_truediv top_count total of
                        Inl e \<Rightarrow> Inl e
                      | Inr fraction \<Rightarrow>
                         Inr \<lparr>consensus_replicon =
                                 (if fle threshold fraction then top else ''multi-replicon''),
                               top_replicon = top,
                               consensus_fraction = round3 fraction,
                               n_isolates = total,
                               all_replicons =
                                 join '','' (map (\<lambda>(rep, cnt). rep @ ''('' @ str_nat cnt @ '')'')
                                               (most_common counts))\<rparr>)))"

text \<open>\<open>sub in s\<close>, and \<open>s.split(sep)[0]\<close>: the part of \<open>s\<close> before the first occurrence of
  the non-empty separator, all of \<open>s\<close> when there is none.\<close>

fun str_contains :: "string \<Rightarrow> string \<Rightarrow> bool" where
  "str_contains sub [] = (sub = [])"
| "str_contains sub (c # cs) = (take (length sub) (c # cs) = sub \<or> str_contains sub cs)"

fun split_first :: "string \<Rightarrow> string \<Rightarrow> string" where
  "split_first sep [] = []"
| "split_first sep (c # cs) =
     (if take (length sep) (c # cs) = sep then [] else c # split_first sep cs)"

text \<open>\<open>re.match(r'^([a-z]+\d+)', s)\<close>: group 1, or \<open>None\<close>. No letter is a digit, so the
  greedy run of letters is the only one that can be followed by digits.\<close>

definition islower_az :: "char \<Rightarrow> bool" where
  "islower_az c = (97 \<le> (of_char c :: nat) \<and> (of_char c :: nat) \<le> 122)"

definition match_letters_digits :: "string \<Rightarrow> string option" where
  "match_letters_digits s =
     (let letters = takeWhile islower_az s;
          digits = takeWhile isdigit (dropWhile islower_az s)
      in if letters = [] \<or> digits = [] then None else Some (letters @ digits))"

definition classify_replicon_family :: "string \<Rightarrow> string" where
  "classify_replicon_family replicon =
     (if replicon \<in> {''unknown'', ''unmatched'', ''multi-replicon'', ''unknownreplicon''}
      then replicon
      else if replicon = ''chromosome'' then ''chromosome''
      else case (if str_contains ''+'' replicon \<or> str_contains ''-cp'' replicon
                    \<or> str_contains ''-lp'' replicon
                 then match_letters_digits
                        (split_first ''-lp'' (split_first ''-cp'' (split_first ''+'' replicon)))
                 else None) of
             Some g \<Rightarrow> g
           | None \<Rightarrow> (case match_letters_digits replicon of Some g \<Rightarrow> g | None \<Rightarrow> replicon))"

text \<open>
  \<open>analyze_family_diversity\<close>. The two library functions it calls on floats are
  parameters: \<open>math_log2\<close> is \<open>math.log2\<close> (the logarithm of the platform's C library, or
  \<open>ValueError\<close>) and \<open>float_sum\<close> is the builtin \<open>sum\<close> on the floats the generator
  yields. Everything else is computed here: the two quotients \<open>c/total\<close> (one value, the
  correctly rounded quotient), the product, the negation, the conversion of \<open>n_families\<close>
  to a float inside \<open>math.log2\<close>, the division and \<open>round(x, 3)\<close>. The integers \<open>0\<close>
  and \<open>1\<close> of the two \<open>else\<close> branches are written as the floats they equal.
\<close>

record family_diversity =
  families :: "string list"
  family_counts :: "(string \<times> nat) list"
  n_families :: nat
  top_family :: string
  top_family_count :: nat
  family_consensus_frac :: pyfloat
  is_single_family :: bool
  cross_family_score :: pyfloat

definition entropy_term :: "(pyfloat \<Rightarrow> error + pyfloat) \<Rightarrow> nat \<Rightarrow> nat \<Rightarrow> error + pyfloat" where
  "entropy_term math_log2 tot c =
     (case int_truediv c tot of
        Inl e \<Rightarrow> Inl e
      | Inr p \<Rightarrow> (case math_log2 p of Inl e \<Rightarrow> Inl e | Inr l \<Rightarrow> Inr (fmul p l)))"

fun entropy_terms ::
  "(pyfloat \<Rightarrow> error + pyfloat) \<Rightarrow> nat \<Rightarrow> nat list \<Rightarrow> error + pyfloat list" where
  "entropy_terms math_log2 tot [] = Inr []"
| "entropy_terms math_log2 tot (c # cs) =
     (case entropy_term math_log2 tot c of
        Inl e \<Rightarrow> Inl e
      | Inr t \<Rightarrow>
         (case entropy_terms math_log2 tot cs of Inl e \<Rightarrow> Inl e | Inr ts \<Rightarrow> Inr (t # ts)))"

definition cross_family_score_of ::
  "(pyfloat \<Rightarrow> error + pyfloat) \<Rightarrow> (pyfloat list \<Rightarrow> pyfloat) \<Rightarrow> (string \<times> nat) list \<Rightarrow> nat
     \<Rightarrow> error + pyfloat" where
  "cross_family_score_of math_log2 float_sum counts tot =
     (let n = length counts
      in if n \<le> 1 then Inr (Fin 0)
         else (case entropy_terms math_log2 tot (filter (\<lambda>c. 0 < c) (map snd counts)) of
                 Inl e \<Rightarrow> Inl e
               | Inr terms \<Rightarrow>
                  (let entropy = fneg (float_sum terms)
                   in case (if 1 < n then math_log2 (round_double (of_nat n)) else Inr (Fin 1)) of
                        Inl e \<Rightarrow> Inl e
                      | Inr max_entropy \<Rightarrow>
                         if flt (Fin 0) max_entropy then truediv entropy max_entropy
                         else Inr (Fin 0))))"

definition analyze_family_diversity ::
  "(pyfloat \<Rightarrow> error + pyfloat) \<Rightarrow> (pyfloat list \<Rightarrow> pyfloat) \<Rightarrow> string list
     \<Rightarrow> error + family_diversity" where
  "analyze_family_diversity math_log2 float_sum replicon_list =
     (if replicon_list = []
      then Inr \<lparr>families = [], family_counts = [], n_families = 0, top_family = ''unknown'',
                top_family_count = 0, family_consensus_frac = Fin 0, is_single_family = True,
                cross_family_score = Fin 0\<rparr>
      else (let fams = map classify_replicon_family replicon_list;
                counts = Counter fams;
                total = length fams
            in case counts of
                 [] \<Rightarrow> Inl IndexError
               | c # cs \<Rightarrow>
                  (let (tf, tc) = max_first c cs
                   in case (if 0 < total then int_truediv tc total else Inr (Fin 0)) of
                        Inl e \<Rightarrow> Inl e
                      | Inr cfrac \<Rightarrow>
                         (case cross_family_score_of math_log2 float_sum counts total of
                            Inl e \<Rightarrow> Inl e
                          | Inr score \<Rightarrow>
                             Inr \<lparr>families = map fst counts, family_counts = counts,
                                   n_families = length counts, top_family = tf,
                                   top_family_count = tc,
                                   family_consensus_frac = round3 cfrac,
                                   is_single_family = (length counts = 1),
                                   cross_family_score = round3 score\<rparr>))))"

section \<open>Placement in the words of the specification\<close>

text \<open>
  The notions the specification uses to say where a fragment goes, defined directly on
  the rows of one assembly; the theorems below compare the loops of \<open>main\<close> with them.
  The object name of a fragment is the first whitespace-delimited token of its contig id.
\<close>

definition first_token :: "string \<Rightarrow> string" where
  "first_token s = takeWhile (\<lambda>c. \<not> isspace c) (dropWhile isspace s)"

definition chrom_line :: "string \<Rightarrow> string \<Rightarrow> string" where
  "chrom_line cid replicon =
     first_token (strip cid) @ tab @ sanitize_replicon_name replicon @ tab @
     format_topology (infer_topology replicon) (infer_chromosome_type replicon)"

definition unloc_line :: "string \<Rightarrow> string \<Rightarrow> string" where
  "unloc_line cid replicon = first_token (strip cid) @ tab @ sanitize_replicon_name replicon"

text \<open>The text of the contig id cell and of the call cell of a row (empty for a missing
  cell).\<close>

definition contig_text :: "classifier_row \<Rightarrow> string" where
  "contig_text row = (case contig_id row of None \<Rightarrow> [] | Some s \<Rightarrow> s)"

definition call_text :: "classifier_row \<Rightarrow> string" where
  "call_text row = (case plasmid_name row of None \<Rightarrow> [] | Some s \<Rightarrow> s)"

text \<open>Classified mode: the replicon call of a row, whether it is classified, its length,
  the group of a call, the calls in sorted order, and a group by descending length.\<close>

definition replicon_of :: "classifier_row \<Rightarrow> string" where
  "replicon_of row = strip (call_text row)"

definition is_classified :: "classifier_row \<Rightarrow> bool" where
  "is_classified row = (replicon_of row \<noteq> [] \<and> lower (replicon_of row) \<noteq> ''unclassified'')"

definition fragment_length :: "classifier_row \<Rightarrow> int" where
  "fragment_length row = (case contig_len_int (contig_len row) of Inl e \<Rightarrow> 0 | Inr n \<Rightarrow> n)"

definition replicon_group :: "string \<Rightarrow> classifier_row list \<Rightarrow> classifier_row list" where
  "replicon_group c rows = filter (\<lambda>r. is_classified r \<and> replicon_of r = c) rows"

definition replicon_names :: "classifier_row list \<Rightarrow> string list" where
  "replicon_names rows = sort (remdups (map replicon_of (filter is_classified rows)))"

definition by_length_desc :: "classifier_row list \<Rightarrow> classifier_row list" where
  "by_length_desc g = sort_key (\<lambda>r. - fragment_length r) g"

definition primary_lines :: "string \<Rightarrow> classifier_row list \<Rightarrow> string list" where
  "primary_lines c rows =
     (case by_length_desc (replicon_group c rows) of
        [] \<Rightarrow> [] | p # fs \<Rightarrow> [chrom_line (contig_text p) c])"

definition fragment_lines :: "string \<Rightarrow> classifier_row list \<Rightarrow> string list" where
  "fragment_lines c rows =
     (case by_length_desc (replicon_group c rows) of
        [] \<Rightarrow> [] | p # fs \<Rightarrow> map (\<lambda>f. unloc_line (contig_text f) c) fs)"

text \<open>A row the classified mode can place: its contig id cell is present and has a token, and
  its length is not an infinity.\<close>

definition placeable :: "classifier_row \<Rightarrow> bool" where
  "placeable row = (contig_id row \<noteq> None \<and> strip (contig_text row) \<noteq> []
                      \<and> contig_len row \<noteq> Some PosInf \<and> contig_len row \<noteq> Some NegInf)"

definition lookup_list :: "('k \<times> 'v list) list \<Rightarrow> 'k \<Rightarrow> 'v list" where
  "lookup_list d k = (case map_of d k of None \<Rightarrow> [] | Some vs \<Rightarrow> vs)"

definition group_items :: "string \<Rightarrow> classifier_row list \<Rightarrow> (int \<times> classifier_row) list" where
  "group_items c rows = map (\<lambda>r. (fragment_length r, r)) (replicon_group c rows)"

text \<open>Complete mode: a row is placed when it has a contig id and a call and passes the
  thresholds, and counted as unplaced when it has both and fails them.\<close>

definition complete_placed :: "pyfloat \<Rightarrow> pyfloat \<Rightarrow> pyfloat \<Rightarrow> classifier_row \<Rightarrow> bool" where
  "complete_placed t1 t2 t3 row =
     (strip (contig_text row) \<noteq> [] \<and> strip (call_text row) \<noteq> []
      \<and> passes_completeness row t1 t2 t3 = Inr True)"

definition complete_unplaced :: "pyfloat \<Rightarrow> pyfloat \<Rightarrow> pyfloat \<Rightarrow> classifier_row \<Rightarrow> bool" where
  "complete_unplaced t1 t2 t3 row =
     (strip (contig_text row) \<noteq> [] \<and> strip (call_text row) \<noteq> []
      \<and> passes_completeness row t1 t2 t3 = Inr False)"

section \<open>Family diversity in the words of the specification\<close>

text \<open>
  The frequency of a family among the families of the member calls, the Shannon entropy
  (in bits) of that frequency distribution, and the entropy divided by the logarithm of
  the number of families.
\<close>

definition family_frequency :: "string list \<Rightarrow> string \<Rightarrow> real" where
  "family_frequency fams f = real (count_list fams f) / real (length fams)"

definition shannon_entropy :: "string list \<Rightarrow> real" where
  "shannon_entropy fams =
     - (\<Sum>f\<in>set fams. family_frequency fams f * log 2 (family_frequency fams f))"

definition normalized_entropy :: "string list \<Rightarrow> real" where
  "normalized_entropy fams = shannon_entropy fams / log 2 (real (card (set fams)))"

text \<open>
  What is asked of the two library functions. \<open>math.log2\<close> returns, on every positive
  float, a float within \<open>1/100000\<close> of the logarithm (the C library is within a few units
  in the last place, some \<open>10\<close> to the \<open>-16\<close>, of it). \<open>sum\<close> returns, on fewer than \<open>2\<close>
  to the \<open>32\<close> floats of magnitude at most 64, a float whose distance from their sum is
  at most \<open>1/100000\<close> of the sum of their magnitudes (left-to-right summation of \<open>n\<close>
  floats is within \<open>n\<close> times \<open>2\<close> to the \<open>-53\<close> of it, compensated summation closer).
\<close>

definition log2_accurate :: "(pyfloat \<Rightarrow> error + pyfloat) \<Rightarrow> bool" where
  "log2_accurate math_log2 =
     (\<forall>x. 0 < x \<longrightarrow>
        (\<exists>y. math_log2 (Fin x) = Inr (Fin y)
             \<and> \<bar>real_of_rat y - log 2 (real_of_rat x)\<bar> \<le> 1 / 100000))"

definition sum_accurate :: "(pyfloat list \<Rightarrow> pyfloat) \<Rightarrow> bool" where
  "sum_accurate float_sum =
     (\<forall>ts. length ts < 2 ^ 32 \<and> (\<forall>t\<in>set ts. \<bar>t\<bar> \<le> 64) \<longrightarrow>
        (\<exists>s. float_sum (map Fin ts) = Fin s
             \<and> \<bar>s - sum_list ts\<bar> \<le> sum_list (map abs ts) / 100000))"

section \<open>Properties of the string functions\<close>

lemma of_char_lower_char:
  "(of_char (lower_char c) :: nat) =
     (if (65 \<le> (of_char c :: nat) \<and> (of_char c :: nat) \<le> 90)
         \<or> (192 \<le> (of_char c :: nat) \<and> (of_char c :: nat) \<le> 222 \<and> (of_char c :: nat) \<noteq> 215)
      then of_char c + 32 else of_char c)"
  unfolding lower_char_def Let_def by (simp add: of_char_of)

lemma lower_char_fix:
  "\<not> ((65 \<le> (of_char c :: nat) \<and> (of_char c :: nat) \<le> 90)
         \<or> (192 \<le> (of_char c :: nat) \<and> (of_char c :: nat) \<le> 222 \<and> (of_char c :: nat) \<noteq> 215))
   \<Longrightarrow> lower_char c = c"
  unfolding lower_char_def Let_def by auto

lemma lower_char_idem: "lower_char (lower_char c) = lower_char c"
  by (rule lower_char_fix) (simp add: of_char_lower_char)

lemma isspace_lower_char: "isspace (lower_char c) = isspace c"
  unfolding isspace_def of_char_lower_char by auto

lemma lower_idem: "lower (lower s) = lower s"
  by (simp add: lower_def lower_char_idem)

lemma dropWhile_isspace_lower: "dropWhile isspace (lower s) = lower (dropWhile isspace s)"
  by (induction s) (auto simp: lower_def isspace_lower_char)

lemma lower_rev: "lower (rev s) = rev (lower s)"
  by (simp add: lower_def rev_map)

lemma strip_lower: "strip (lower s) = lower (strip s)"
  by (simp add: strip_def lstrip_def rstrip_def dropWhile_isspace_lower lower_rev[symmetric])

lemma lstrip_rstrip: "lstrip (rstrip (lstrip s)) = rstrip (lstrip s)"
proof (cases "lstrip s = []")
  case True
  show ?thesis unfolding True by (simp add: rstrip_def lstrip_def)
next
  case False
  then have h: "\<not> isspace (hd (lstrip s))"
    unfolding lstrip_def using hd_dropWhile by blast
  have "rstrip (lstrip s) \<noteq> []"
    using False h unfolding rstrip_def
    by (metis dropWhile_eq_Nil_conv hd_in_set rev_is_Nil_conv set_rev)
  moreover have "hd (rstrip (lstrip s)) = hd (lstrip s)"
    using False h unfolding rstrip_def
    by (metis dropWhile_last hd_in_set hd_rev last_rev rev_is_Nil_conv set_rev)
  ultimately show ?thesis
    using h by (metis dropWhile_eq_self_iff lstrip_def)
qed

lemma strip_idem: "strip (strip s) = strip s"
  by (simp add: strip_def lstrip_rstrip) (simp add: rstrip_def)

section \<open>Properties of the float model\<close>

lemma floor_log2_bounds:
  assumes "0 < x"
  shows "pow2 (floor_log2 x) \<le> x \<and> x < pow2 (floor_log2 x + 1)"
proof (cases "1 \<le> x")
  case True
  define n where "n = \<lfloor>x\<rfloor>"
  have n: "0 < n" using True by (simp add: n_def)
  have b1: "1 \<le> bitlen n" using n by (auto simp: bitlen_alt_def)
  from bitlen_bounds [OF n] have lo: "2 ^ nat (bitlen n - 1) \<le> n" and hi: "n < 2 ^ nat (bitlen n)"
    by auto
  have "(2::rat) ^ nat (bitlen n - 1) = of_int (2 ^ nat (bitlen n - 1))" by simp
  also have "\<dots> \<le> of_int n" using lo by (simp only: of_int_le_iff)
  also have "\<dots> \<le> x" by (simp add: n_def)
  finally have 1: "(2::rat) ^ nat (bitlen n - 1) \<le> x" .
  have "n + 1 \<le> 2 ^ nat (bitlen n)" using hi by simp
  then have "of_int (n + 1) \<le> (of_int (2 ^ nat (bitlen n)) :: rat)" by (simp only: of_int_le_iff)
  moreover have "x < of_int (n + 1)" unfolding n_def by linarith
  ultimately have 2: "x < (2::rat) ^ nat (bitlen n)" by simp
  show ?thesis
    using True b1 1 2 by (simp add: floor_log2_def pow2_def n_def [symmetric])
next
  case False
  define y where "y = 1 / x"
  define m where "m = \<lceil>y\<rceil> - 1"
  have y: "1 < y" using False assms by (simp add: y_def)
  have m: "0 < m" using y unfolding m_def by linarith
  have b1: "1 \<le> bitlen m" using m by (auto simp: bitlen_alt_def)
  from bitlen_bounds [OF m] have lo: "2 ^ nat (bitlen m - 1) \<le> m" and hi: "m < 2 ^ nat (bitlen m)"
    by auto
  have "y \<le> of_int (m + 1)" by (simp add: m_def)
  also have "\<dots> \<le> (of_int (2 ^ nat (bitlen m)) :: rat)" using hi by (simp only: of_int_le_iff)
  finally have yhi: "y \<le> 2 ^ nat (bitlen m)" by simp
  have "(of_int (2 ^ nat (bitlen m - 1)) :: rat) \<le> of_int m" using lo by (simp only: of_int_le_iff)
  also have "\<dots> < y" unfolding m_def by linarith
  finally have ylo: "2 ^ nat (bitlen m - 1) < y" by simp
  have 1: "1 / 2 ^ nat (bitlen m) \<le> x"
    using yhi assms unfolding y_def by (simp add: field_simps)
  have 2: "x < 1 / 2 ^ nat (bitlen m - 1)"
    using ylo assms unfolding y_def by (simp add: field_simps)
  have e: "nat (- (1 - bitlen m)) = nat (bitlen m - 1)" by simp
  show ?thesis
    using False b1 1 2
    by (simp add: floor_log2_def pow2_def y_def [symmetric] m_def [symmetric] e)
qed

section \<open>Properties of compare\_calls.py\<close>

lemma categorize_compound_raises:
  "categorize_compound old_call new_call = Inl (NameError ''old_base_plasmid_calls'')"
  by (simp add: categorize_compound_def read_name_def)

text \<open>
  C1 (the code departs from it). A pair of calls where the base tokens of the old call
  are a non-empty subset of those of the new call should be categorized
  \<open>extra_annotation\<close> with the old call as resolution. At old \<open>lp28-4\<close>, new
  \<open>lp28-4:::lp17\<close> the subset relation holds, and \<open>categorize\<close> raises \<open>NameError\<close>: the
  test reads \<open>old_base_plasmid_calls\<close>, the sets were bound to \<open>old_base_calls\<close> and
  \<open>new_base_calls\<close>.
\<close>

theorem categorize_subset_raises:
  "extract_base_plasmid_calls ''lp28-4'' = {''lp28-4''}
   \<and> extract_base_plasmid_calls ''lp28-4:::lp17'' = {''lp28-4'', ''lp17''}
   \<and> categorize ''lp28-4'' ''lp28-4:::lp17'' = Inl (NameError ''old_base_plasmid_calls'')"
  by code_simp

text \<open>
  C2. When both calls are non-empty after normalization, their normalized forms differ and
  still differ after the trailing stars are stripped, \<open>categorize\<close> raises \<open>NameError\<close> on
  the name \<open>old_base_plasmid_calls\<close>. So whenever \<open>categorize\<close> returns, the category is
  one of \<open>exact_match\<close>, \<open>new_unclassified\<close>, \<open>old_unclassified\<close>, \<open>annotation_suffix\<close>, and
  never \<open>extra_annotation\<close>, \<open>base_match\<close>, \<open>partial_overlap\<close>, \<open>same_family_tiebreak\<close> or
  \<open>different\<close>.
\<close>

theorem categorize_name_error:
  "(\<not> is_empty old_call \<and> \<not> is_empty new_call
      \<and> normalize_call old_call \<noteq> normalize_call new_call
      \<and> strip_suffix (normalize_call old_call) \<noteq> strip_suffix (normalize_call new_call)
    \<longrightarrow> categorize old_call new_call = Inl (NameError ''old_base_plasmid_calls''))
   \<and> (\<forall>cat res. categorize old_call new_call = Inr (cat, res)
        \<longrightarrow> cat \<in> {exact_match, new_unclassified, old_unclassified, annotation_suffix}
            \<and> cat \<notin> {extra_annotation, base_match, partial_overlap, same_family_tiebreak,
                       different})"
proof (intro conjI impI allI)
  assume "\<not> is_empty old_call \<and> \<not> is_empty new_call
      \<and> normalize_call old_call \<noteq> normalize_call new_call
      \<and> strip_suffix (normalize_call old_call) \<noteq> strip_suffix (normalize_call new_call)"
  then show "categorize old_call new_call = Inl (NameError ''old_base_plasmid_calls'')"
    by (simp add: categorize_def Let_def categorize_compound_raises)
next
  fix cat res
  assume r: "categorize old_call new_call = Inr (cat, res)"
  then show "cat \<in> {exact_match, new_unclassified, old_unclassified, annotation_suffix}"
    by (auto simp: categorize_def Let_def categorize_compound_raises split: if_splits)
  then show "cat \<notin> {extra_annotation, base_match, partial_overlap, same_family_tiebreak,
                     different}"
    by auto
qed

theorem categorize_name_error_witness:
  "categorize ''lp28-4'' ''lp17'' = Inl (NameError ''old_base_plasmid_calls'')
   \<and> categorize ''lp28-1'' ''lp28-1*'' = Inr (annotation_suffix, ''lp28-1'')
   \<and> annotation_suffix \<in> {exact_match, new_unclassified, old_unclassified, annotation_suffix}"
proof -
  have h: "\<not> is_empty ''lp28-4'' \<and> \<not> is_empty ''lp17''
      \<and> normalize_call ''lp28-4'' \<noteq> normalize_call ''lp17''
      \<and> strip_suffix (normalize_call ''lp28-4'') \<noteq> strip_suffix (normalize_call ''lp17'')"
    by code_simp
  have r: "categorize ''lp28-1'' ''lp28-1*'' = Inr (annotation_suffix, ''lp28-1'')"
    by code_simp
  from h categorize_name_error [of "''lp28-4''" "''lp17''"]
  have "categorize ''lp28-4'' ''lp17'' = Inl (NameError ''old_base_plasmid_calls'')"
    by blast
  moreover from r categorize_name_error [of "''lp28-1''" "''lp28-1*''"]
  have "annotation_suffix \<in> {exact_match, new_unclassified, old_unclassified, annotation_suffix}"
    by blast
  ultimately show ?thesis using r by blast
qed

text \<open>
  C3 (amended). \<open>normalize_call (normalize_call x) = normalize_call x\<close> holds exactly for the
  calls \<open>x\<close> whose normalized form is not one of \<open>na\<close>, \<open>nan\<close>, \<open>none\<close>, \<open>unclassified\<close>; a
  call has such a normalized form only when it carries surrounding whitespace, since the
  sentinels are looked up before the call is stripped. The empty string and \<open>na\<close>, \<open>nan\<close>,
  \<open>none\<close>, \<open>unclassified\<close> in any letter case normalize to the empty sentinel.
\<close>

theorem normalize_call_idempotent_iff:
  "(normalize_call (normalize_call x) = normalize_call x
      \<longleftrightarrow> normalize_call x \<notin> set [''na'', ''nan'', ''none'', ''unclassified''])
   \<and> (strip x = x \<longrightarrow> normalize_call (normalize_call x) = normalize_call x)
   \<and> (lower s \<in> set [[], ''na'', ''nan'', ''none'', ''unclassified''] \<longrightarrow> normalize_call s = [])"
proof -
  have iff: "normalize_call (normalize_call x) = normalize_call x
      \<longleftrightarrow> normalize_call x \<notin> set [''na'', ''nan'', ''none'', ''unclassified'']"
  proof (cases "x = [] \<or> lower x \<in> set [''na'', ''nan'', ''none'', [], ''unclassified'']")
    case True
    then have "normalize_call x = []" by (simp add: normalize_call_def)
    then show ?thesis by (simp add: normalize_call_def)
  next
    case False
    define y where "y = lower (strip x)"
    have nx: "normalize_call x = y" using False by (simp add: normalize_call_def y_def)
    have ly: "lower y = y" by (simp add: y_def lower_idem)
    have sy: "strip y = y" by (simp add: y_def strip_lower strip_idem)
    have "normalize_call y =
        (if y = [] \<or> y \<in> set [''na'', ''nan'', ''none'', [], ''unclassified''] then [] else y)"
      by (simp add: normalize_call_def ly sy)
    then show ?thesis unfolding nx by auto
  qed
  have stripped: "normalize_call x \<notin> set [''na'', ''nan'', ''none'', ''unclassified'']"
    if "strip x = x"
    using that by (auto simp: normalize_call_def)
  have sentinels: "normalize_call s = []"
    if "lower s \<in> set [[], ''na'', ''nan'', ''none'', ''unclassified'']"
    using that by (auto simp: normalize_call_def)
  show ?thesis using iff stripped sentinels by blast
qed

theorem normalize_call_idempotent_witness:
  "normalize_call (normalize_call ''  LP28-4 '') = normalize_call ''  LP28-4 ''
   \<and> normalize_call (normalize_call ''Cp26'') = normalize_call ''Cp26''
   \<and> normalize_call ''UnClassified'' = []"
proof -
  have a: "normalize_call ''  LP28-4 '' \<notin> set [''na'', ''nan'', ''none'', ''unclassified'']"
    by code_simp
  have b: "strip ''Cp26'' = ''Cp26''"
    by code_simp
  have c: "lower ''UnClassified'' \<in> set [[], ''na'', ''nan'', ''none'', ''unclassified'']"
    by code_simp
  show ?thesis
    using a b c normalize_call_idempotent_iff [of "''  LP28-4 ''" "''UnClassified''"]
      normalize_call_idempotent_iff [of "''Cp26''" "''UnClassified''"]
    by blast
qed

theorem normalize_call_not_idempotent:
  "normalize_call '' NA '' = ''na''
   \<and> normalize_call (normalize_call '' NA '') \<noteq> normalize_call '' NA ''"
  by code_simp

lemma categorize_plasmid_x_chromosome:
  "categorize ''plasmid_x'' ''chromosome'' = Inl (NameError ''old_base_plasmid_calls'')"
  by code_simp

lemma categorize_lp28_4_lp17:
  "categorize ''lp28-4'' ''lp17'' = Inl (NameError ''old_base_plasmid_calls'')"
  by code_simp

text \<open>
  C4 (the code departs from it). With the auto-chromosome threshold 100000, a fragment with
  old call \<open>plasmid_x\<close>, new call \<open>chromosome\<close> and length 200000 should get category
  \<open>auto_chromosome\<close> and resolved call \<open>chromosome\<close>. The loop body calls \<open>categorize\<close>
  first, which raises \<open>NameError\<close> on these two calls, so no row is produced.
\<close>

theorem auto_chromosome_example_raises:
  "compare_key 100000 [k \<mapsto> ''plasmid_x''] [k \<mapsto> ''chromosome''] [k \<mapsto> 200000] Map.empty k
     = Inl (NameError ''old_base_plasmid_calls'')"
  by (simp add: compare_key_def categorize_plasmid_x_chromosome)

text \<open>
  C5 (the code departs from it). A key of the manual-override table should get the override
  value as resolved call, and category \<open>manual_override\<close> unless it was \<open>exact_match\<close>. For
  a key with old call \<open>lp28-4\<close> and new call \<open>lp17\<close>, whatever the threshold, the lengths
  and the override value, \<open>categorize\<close> raises \<open>NameError\<close> before the override table is
  looked at, so no row is produced.
\<close>

theorem manual_override_example_raises:
  "compare_key auto_chromosome_bp [k \<mapsto> ''lp28-4''] [k \<mapsto> ''lp17''] contig_lengths
     [k \<mapsto> v] k = Inl (NameError ''old_base_plasmid_calls'')"
  by (simp add: compare_key_def categorize_lp28_4_lp17)

lemma categorize_lp28_1_star:
  "categorize ''lp28-1'' ''lp28-1*'' = Inr (annotation_suffix, ''lp28-1'')"
  by code_simp

text \<open>
  X1. The override step of the loop body: when a key has an override row and the loop body
  without the override table returns a row for it, the loop body with the table returns
  that row with the override value as resolved call, and with category \<open>manual_override\<close>
  unless the category was \<open>exact_match\<close>.
\<close>

theorem compare_key_override:
  "overrides k = Some v \<and> compare_key bp old_calls new_calls lens Map.empty k = Inr row0
   \<longrightarrow> compare_key bp old_calls new_calls lens overrides k =
         Inr (row0\<lparr>row_category :=
                     (if row_category row0 = exact_match then exact_match else manual_override),
                   row_resolved_call := v\<rparr>)"
  by (auto simp: compare_key_def Let_def split: sum.splits prod.splits if_splits)

theorem compare_key_override_witness:
  "compare_key 0 [(''asm'', ''c1'') \<mapsto> ''lp28-1''] [(''asm'', ''c1'') \<mapsto> ''lp28-1*'']
     Map.empty [(''asm'', ''c1'') \<mapsto> ''lp28-1''] (''asm'', ''c1'')
   = Inr \<lparr>row_assembly_id = ''asm'', row_contig_id = ''c1'', row_contig_len = 0,
          row_old_call = ''lp28-1'', row_new_call = ''lp28-1*'',
          row_category = manual_override, row_resolved_call = ''lp28-1''\<rparr>"
  (is "compare_key 0 ?old ?new Map.empty ?ov ?k = Inr ?row")
proof -
  have o: "?ov ?k = Some ''lp28-1''" by simp
  have r: "compare_key 0 ?old ?new Map.empty Map.empty ?k =
      Inr \<lparr>row_assembly_id = ''asm'', row_contig_id = ''c1'', row_contig_len = 0,
          row_old_call = ''lp28-1'', row_new_call = ''lp28-1*'',
          row_category = annotation_suffix, row_resolved_call = ''lp28-1''\<rparr>"
    by (simp add: compare_key_def categorize_lp28_1_star Let_def)
  show ?thesis
    using o r compare_key_override [of ?ov ?k "''lp28-1''" 0 ?old ?new Map.empty] by simp
qed

text \<open>
  X2. A key present in the old table only gets category \<open>old_only\<close> and the old call as
  resolved call; a key present in the new table only gets \<open>new_only\<close> and the new call
  (no override row for the key). \<open>categorize\<close> is not called for such a key.
\<close>

theorem compare_key_one_source:
  "(new_calls k = None \<and> overrides k = None \<longrightarrow>
      compare_key bp old_calls new_calls lens overrides k =
        Inr \<lparr>row_assembly_id = fst k, row_contig_id = snd k,
             row_contig_len = (case lens k of None \<Rightarrow> 0 | Some n \<Rightarrow> n),
             row_old_call = (case old_calls k of None \<Rightarrow> [] | Some c \<Rightarrow> c),
             row_new_call = [], row_category = old_only,
             row_resolved_call = (case old_calls k of None \<Rightarrow> [] | Some c \<Rightarrow> c)\<rparr>)
   \<and> (new_calls k = Some c \<and> old_calls k = None \<and> overrides k = None \<longrightarrow>
      compare_key bp old_calls new_calls lens overrides k =
        Inr \<lparr>row_assembly_id = fst k, row_contig_id = snd k,
             row_contig_len = (case lens k of None \<Rightarrow> 0 | Some n \<Rightarrow> n),
             row_old_call = [], row_new_call = c, row_category = new_only,
             row_resolved_call = c\<rparr>)"
  by (simp add: compare_key_def Let_def)

theorem compare_key_one_source_witness:
  "compare_key 100000 [(''asm'', ''c1'') \<mapsto> ''chromosome''] Map.empty Map.empty Map.empty
     (''asm'', ''c1'')
   = Inr \<lparr>row_assembly_id = ''asm'', row_contig_id = ''c1'', row_contig_len = 0,
          row_old_call = ''chromosome'', row_new_call = [], row_category = old_only,
          row_resolved_call = ''chromosome''\<rparr>
   \<and> compare_key 100000 Map.empty [(''asm'', ''c2'') \<mapsto> ''lp17''] [(''asm'', ''c2'') \<mapsto> 17000]
     Map.empty (''asm'', ''c2'')
   = Inr \<lparr>row_assembly_id = ''asm'', row_contig_id = ''c2'', row_contig_len = 17000,
          row_old_call = [], row_new_call = ''lp17'', row_category = new_only,
          row_resolved_call = ''lp17''\<rparr>"
proof -
  have a: "(Map.empty :: key \<rightharpoonup> string) (''asm'', ''c1'') = None
           \<and> (Map.empty :: key \<rightharpoonup> string) (''asm'', ''c1'') = None"
    by simp
  have b: "[(''asm'', ''c2'') \<mapsto> ''lp17''] (''asm'', ''c2'') = Some ''lp17''
           \<and> (Map.empty :: key \<rightharpoonup> string) (''asm'', ''c2'') = None
           \<and> (Map.empty :: key \<rightharpoonup> string) (''asm'', ''c2'') = None"
    by simp
  show ?thesis
    using a b
      compare_key_one_source [where new_calls = Map.empty and k = "(''asm'', ''c1'')"
        and overrides = Map.empty and bp = 100000
        and old_calls = "[(''asm'', ''c1'') \<mapsto> ''chromosome'']" and lens = Map.empty]
      compare_key_one_source [where new_calls = "[(''asm'', ''c2'') \<mapsto> ''lp17'']"
        and k = "(''asm'', ''c2'')" and overrides = Map.empty and c = "''lp17''" and bp = 100000
        and old_calls = Map.empty and lens = "[(''asm'', ''c2'') \<mapsto> 17000]"]
    by simp
qed

text \<open>
  X3. The base tokens of \<open>lp28-4:::lp17\<close> are \<open>lp28-4\<close> and \<open>lp17\<close>; the fusion name
  \<open>cp32-1+5\<close> is one token; an unclassified call has none.
\<close>

theorem extract_base_plasmid_calls_examples:
  "extract_base_plasmid_calls ''lp28-4:::lp17'' = {''lp28-4'', ''lp17''}
   \<and> extract_base_plasmid_calls ''cp32-1+5'' = {''cp32-1+5''}
   \<and> extract_base_plasmid_calls ''NA'' = {}"
  by code_simp

text \<open>
  C10. For every call string \<open>c\<close>, \<open>categorize c c\<close> returns the category \<open>exact_match\<close>;
  the resolution is empty when \<open>c\<close> is empty or unclassified, and the stripped call
  otherwise.
\<close>

theorem categorize_same_call:
  "categorize c c = Inr (exact_match, if is_empty c then [] else strip c)"
  by (simp add: categorize_def Let_def)

section \<open>Properties of generate\_chromosome\_lists.py\<close>

lemma fle_NaN_right: "fle x NaN = False"
  by (cases x) simp_all

lemma truediv_100: "\<exists>v. truediv x (Fin 100) = Inr v"
  by (cases x) simp_all

lemma percent_fraction_total: "\<exists>v. percent_fraction cell = Inr v"
  using truediv_100 by (cases cell) (auto simp: percent_fraction_def)

lemma truediv_positive: "\<not> fle rl (Fin 0) \<Longrightarrow> \<exists>v. truediv rcl rl = Inr v"
  by (cases rl; cases rcl) auto

lemma compute_ref_coverage_total: "\<exists>v. compute_ref_coverage a b = Inr v"
proof (cases a)
  case None
  then show ?thesis by (simp add: compute_ref_coverage_def)
next
  case (Some rcl)
  show ?thesis
  proof (cases b)
    case None
    then show ?thesis using Some by (simp add: compute_ref_coverage_def)
  next
    case (Some rl)
    show ?thesis
    proof (cases "fle rl (Fin 0)")
      case True
      then show ?thesis using \<open>a = Some rcl\<close> Some by (simp add: compute_ref_coverage_def)
    next
      case False
      then obtain v where "truediv rcl rl = Inr v" using truediv_positive by blast
      then show ?thesis using \<open>a = Some rcl\<close> Some False by (simp add: compute_ref_coverage_def)
    qed
  qed
qed

lemma passes_completeness_total: "\<exists>b. passes_completeness row t1 t2 t3 = Inr b"
proof -
  obtain rc where 1: "compute_ref_coverage (ref_covered_length row) (ref_length row) = Inr rc"
    using compute_ref_coverage_total by blast
  obtain q where 2: "percent_fraction (query_coverage_percent row) = Inr q"
    using percent_fraction_total by blast
  obtain i where 3: "percent_fraction (overall_percent_identity row) = Inr i"
    using percent_fraction_total by blast
  show ?thesis by (simp add: passes_completeness_def 1 2 3)
qed

lemma compute_ref_coverage_Some:
  "compute_ref_coverage a b = Inr (Some cov) \<and> cov \<noteq> NaN \<longleftrightarrow>
     (\<exists>rcl rl. a = Some rcl \<and> b = Some rl \<and> flt (Fin 0) rl \<and> truediv rcl rl = Inr cov \<and> cov \<noteq> NaN)"
proof (cases a)
  case None
  then show ?thesis by (simp add: compute_ref_coverage_def)
next
  case (Some rcl)
  note a = Some
  show ?thesis
  proof (cases b)
    case None
    then show ?thesis using a by (simp add: compute_ref_coverage_def)
  next
    case (Some rl)
    show ?thesis using a Some
      by (cases rl; cases rcl) (auto simp: compute_ref_coverage_def flt_def split: sum.splits)
  qed
qed

lemma passes_completeness_iff:
  "passes_completeness row t1 t2 t3 = Inr True \<longleftrightarrow>
     (\<exists>rcl rl cov q i.
        ref_covered_length row = Some rcl \<and> ref_length row = Some rl \<and> flt (Fin 0) rl
        \<and> truediv rcl rl = Inr cov \<and> fle t1 cov
        \<and> percent_fraction (query_coverage_percent row) = Inr q \<and> fle t2 q
        \<and> percent_fraction (overall_percent_identity row) = Inr i \<and> fle t3 i)"
proof -
  obtain rc where 1: "compute_ref_coverage (ref_covered_length row) (ref_length row) = Inr rc"
    using compute_ref_coverage_total by blast
  obtain q where 2: "percent_fraction (query_coverage_percent row) = Inr q"
    using percent_fraction_total by blast
  obtain i where 3: "percent_fraction (overall_percent_identity row) = Inr i"
    using percent_fraction_total by blast
  have p: "passes_completeness row t1 t2 t3 = Inr True \<longleftrightarrow>
      (\<exists>cov. rc = Some cov \<and> fle t1 cov \<and> fle t2 q \<and> fle t3 i)"
    by (cases rc) (simp_all add: passes_completeness_def 1 2 3)
  have c: "(rc = Some cov \<and> fle t1 cov) \<longleftrightarrow>
      (\<exists>rcl rl. ref_covered_length row = Some rcl \<and> ref_length row = Some rl \<and> flt (Fin 0) rl
         \<and> truediv rcl rl = Inr cov \<and> fle t1 cov)" for cov
    using compute_ref_coverage_Some [of "ref_covered_length row" "ref_length row" cov]
    unfolding 1 by (auto simp: fle_NaN_right)
  show ?thesis unfolding p 2 3 using c by blast
qed

lemma split_ws_cur:
  "cur \<noteq> [] \<Longrightarrow> \<exists>ts. split_ws cur s = (cur @ takeWhile (\<lambda>c. \<not> isspace c) s) # ts"
proof (induction s arbitrary: cur)
  case Nil
  then show ?case by simp
next
  case (Cons a s)
  show ?case
  proof (cases "isspace a")
    case True
    then show ?thesis using Cons.prems by simp
  next
    case False
    then show ?thesis using Cons.IH [of "cur @ [a]"] by simp
  qed
qed

lemma split_ws_first:
  "\<exists>c\<in>set s. \<not> isspace c \<Longrightarrow> \<exists>ts. split_ws [] s = first_token s # ts"
proof (induction s)
  case Nil
  then show ?case by simp
next
  case (Cons c cs)
  show ?case
  proof (cases "isspace c")
    case True
    then show ?thesis using Cons by (auto simp: first_token_def)
  next
    case False
    then show ?thesis using split_ws_cur [of "[c]" cs] by (auto simp: first_token_def)
  qed
qed

lemma strip_nonblank: "strip s \<noteq> [] \<Longrightarrow> \<exists>c\<in>set (strip s). \<not> isspace c"
proof (rule ccontr)
  assume a: "strip s \<noteq> []" and "\<not> (\<exists>c\<in>set (strip s). \<not> isspace c)"
  then have "lstrip (strip s) = []" by (simp add: lstrip_def)
  then have "strip (strip s) = []" by (simp add: strip_def rstrip_def)
  then show False using a by (simp add: strip_idem)
qed

lemma parse_contig_name_nonblank:
  "strip cid \<noteq> [] \<Longrightarrow> parse_contig_name cid = Inr (first_token (strip cid))"
  using split_ws_first [OF strip_nonblank, of cid]
  by (auto simp: parse_contig_name_def)

lemma parse_contig_name_strip: "parse_contig_name (strip cid) = parse_contig_name cid"
  by (simp add: parse_contig_name_def strip_idem)

lemma map_of_append_item:
  "map_of (append_item d k v) = (map_of d)(k \<mapsto> lookup_list d k @ [v])"
  by (induction d) (auto simp: lookup_list_def fun_eq_iff)

lemma map_fst_append_item:
  "map fst (append_item d k v) = (if k \<in> set (map fst d) then map fst d else map fst d @ [k])"
proof (induction d)
  case Nil
  then show ?case by simp
next
  case (Cons a d)
  obtain k' vs where a: "a = (k', vs)" by (cases a)
  show ?case unfolding a using Cons.IH by (cases "k' = k") simp_all
qed

lemma keys_append_item:
  "set (map fst (append_item d k v)) = insert k (set (map fst d))"
  unfolding map_fst_append_item by auto

lemma distinct_append_item:
  "distinct (map fst d) \<Longrightarrow> distinct (map fst (append_item d k v))"
  unfolding map_fst_append_item by auto

lemma strip_cell_call:
  "plasmid_name row \<noteq> None \<Longrightarrow> strip_cell (plasmid_name row) = Inr (replicon_of row)"
  by (auto simp: strip_cell_def replicon_of_def call_text_def)

lemma strip_cell_contig:
  "contig_id row \<noteq> None \<Longrightarrow> strip_cell (contig_id row) = Inr (strip (contig_text row))"
  by (auto simp: strip_cell_def contig_text_def)

lemma contig_len_int_placeable:
  "placeable row \<Longrightarrow> contig_len_int (contig_len row) = Inr (fragment_length row)"
  by (auto simp: placeable_def fragment_length_def contig_len_int_def split: option.splits pyfloat.splits)

lemma group_by_replicon_result:
  assumes "\<forall>r\<in>set rows. plasmid_name r \<noteq> None \<and> (is_classified r \<longrightarrow> placeable r)"
  shows "\<exists>d'. group_by_replicon rows d n
            = Inr (d', n + length (filter (\<lambda>r. \<not> is_classified r) rows))
          \<and> (distinct (map fst d) \<longrightarrow> distinct (map fst d'))
          \<and> set (map fst d') = set (map fst d) \<union> replicon_of ` set (filter is_classified rows)
          \<and> (\<forall>c. lookup_list d' c
                 = lookup_list d c @ map (\<lambda>r. (fragment_length r, r)) (replicon_group c rows))"
  using assms
proof (induction rows arbitrary: d n)
  case Nil
  then show ?case by (simp add: replicon_group_def)
next
  case (Cons row rows)
  have wf: "\<forall>r\<in>set rows. plasmid_name r \<noteq> None \<and> (is_classified r \<longrightarrow> placeable r)"
    using Cons.prems by simp
  have call: "strip_cell (plasmid_name row) = Inr (replicon_of row)"
    using Cons.prems by (simp add: strip_cell_call)
  show ?case
  proof (cases "is_classified row")
    case False
    then have step: "group_by_replicon (row # rows) d n = group_by_replicon rows d (n + 1)"
      by (auto simp: call is_classified_def)
    from Cons.IH [OF wf, of d "n + 1"] show ?thesis
      unfolding step using False by (auto simp: replicon_group_def)
  next
    case True
    then have pl: "placeable row" using Cons.prems by simp
    let ?d = "append_item d (replicon_of row) (fragment_length row, row)"
    have step: "group_by_replicon (row # rows) d n = group_by_replicon rows ?d n"
      using True contig_len_int_placeable [OF pl]
      by (auto simp: call is_classified_def)
    have look: "lookup_list ?d c = lookup_list d c @
        (if replicon_of row = c then [(fragment_length row, row)] else [])" for c
      by (simp add: lookup_list_def map_of_append_item)
    from Cons.IH [OF wf, of ?d n] obtain d' where
      r: "group_by_replicon rows ?d n = Inr (d', n + length (filter (\<lambda>r. \<not> is_classified r) rows))"
      and dist: "distinct (map fst ?d) \<longrightarrow> distinct (map fst d')"
      and keys: "set (map fst d') = set (map fst ?d) \<union> replicon_of ` set (filter is_classified rows)"
      and vals: "\<forall>c. lookup_list d' c
                 = lookup_list ?d c @ map (\<lambda>r. (fragment_length r, r)) (replicon_group c rows)"
      by blast
    have 1: "group_by_replicon (row # rows) d n
        = Inr (d', n + length (filter (\<lambda>r. \<not> is_classified r) (row # rows)))"
      unfolding step r using True by simp
    have 2: "distinct (map fst d) \<longrightarrow> distinct (map fst d')"
    proof
      assume "distinct (map fst d)"
      then have "distinct (map fst ?d)" by (rule distinct_append_item)
      then show "distinct (map fst d')" using dist by simp
    qed
    have 3: "set (map fst d') = set (map fst d) \<union> replicon_of ` set (filter is_classified (row # rows))"
      unfolding keys keys_append_item by (simp add: True)
    have 4: "\<forall>c. lookup_list d' c
        = lookup_list d c @ map (\<lambda>r. (fragment_length r, r)) (replicon_group c (row # rows))"
    proof
      fix c
      have "lookup_list d' c
          = lookup_list ?d c @ map (\<lambda>r. (fragment_length r, r)) (replicon_group c rows)"
        using vals by blast
      then show "lookup_list d' c
          = lookup_list d c @ map (\<lambda>r. (fragment_length r, r)) (replicon_group c (row # rows))"
        by (simp add: look replicon_group_def True)
    qed
    show ?thesis by (intro exI [of _ d'] conjI 1 2 3 4)
  qed
qed

lemma insort_key_map:
  "insort_key f (g x) (map g xs) = map g (insort_key (\<lambda>y. f (g y)) x xs)"
  by (induction xs) auto

lemma sort_key_map:
  "sort_key f (map g xs) = map g (sort_key (\<lambda>y. f (g y)) xs)"
  by (induction xs) (auto simp: insort_key_map)

lemma place_contigs_result:
  assumes "\<forall>x\<in>set lst. contig_id (snd x) \<noteq> None \<and> strip (contig_text (snd x)) \<noteq> []"
  shows "place_contigs c (sanitize_replicon_name c) i lst st =
     Inr (st\<lparr>chrom_lines := chrom_lines st @
                 (if i = 0 then map (\<lambda>x. chrom_line (contig_text (snd x)) c) (take 1 lst) else []),
              unloc_lines := unloc_lines st @
                 map (\<lambda>x. unloc_line (contig_text (snd x)) c) (if i = 0 then drop 1 lst else lst),
              total_placed := total_placed st + (if i = 0 then length (take 1 lst) else 0),
              total_unlocalised := total_unlocalised st
                 + length (if i = 0 then drop 1 lst else lst)\<rparr>)"
  using assms
proof (induction lst arbitrary: i st)
  case Nil
  then show ?case by simp
next
  case (Cons x lst)
  obtain clen row where x: "x = (clen, row)" by (cases x)
  have nb: "strip (contig_text row) \<noteq> []" using Cons.prems x by simp
  have c: "strip_cell (contig_id row) = Inr (strip (contig_text row))"
    using Cons.prems x by (simp add: strip_cell_contig)
  have p: "parse_contig_name (strip (contig_text row)) = Inr (first_token (strip (contig_text row)))"
    using nb by (simp add: parse_contig_name_strip parse_contig_name_nonblank)
  have rest: "\<forall>x\<in>set lst. contig_id (snd x) \<noteq> None \<and> strip (contig_text (snd x)) \<noteq> []"
    using Cons.prems by simp
  show ?case
    unfolding x
    by (cases "i = 0") (simp_all add: c p Cons.IH [OF rest] chrom_line_def unloc_line_def)
qed

lemma sort_group_items:
  "sort_key (\<lambda>x. - fst x) (group_items c rows)
     = map (\<lambda>r. (fragment_length r, r)) (by_length_desc (replicon_group c rows))"
  by (simp add: group_items_def sort_key_map by_length_desc_def)

lemma primary_lines_take:
  "primary_lines c rows
     = map (\<lambda>r. chrom_line (contig_text r) c) (take 1 (by_length_desc (replicon_group c rows)))"
  by (cases "by_length_desc (replicon_group c rows)") (simp_all add: primary_lines_def)

lemma fragment_lines_drop:
  "fragment_lines c rows
     = map (\<lambda>r. unloc_line (contig_text r) c) (drop 1 (by_length_desc (replicon_group c rows)))"
  by (cases "by_length_desc (replicon_group c rows)") (simp_all add: fragment_lines_def)

lemma place_group:
  assumes "\<forall>r\<in>set rows. plasmid_name r \<noteq> None \<and> (is_classified r \<longrightarrow> placeable r)"
  shows "place_contigs c (sanitize_replicon_name c) 0
           (sort_key (\<lambda>x. - fst x) (group_items c rows)) st =
     Inr (st\<lparr>chrom_lines := chrom_lines st @ primary_lines c rows,
              unloc_lines := unloc_lines st @ fragment_lines c rows,
              total_placed := total_placed st + length (primary_lines c rows),
              total_unlocalised := total_unlocalised st + length (fragment_lines c rows)\<rparr>)"
proof -
  let ?g = "by_length_desc (replicon_group c rows)"
  have "\<forall>r\<in>set ?g. contig_id r \<noteq> None \<and> strip (contig_text r) \<noteq> []"
    using assms by (auto simp: by_length_desc_def replicon_group_def placeable_def)
  then have nb: "\<forall>x\<in>set (map (\<lambda>r. (fragment_length r, r)) ?g).
      contig_id (snd x) \<noteq> None \<and> strip (contig_text (snd x)) \<noteq> []"
    by simp
  show ?thesis
    unfolding sort_group_items place_contigs_result [OF nb]
    by (simp add: primary_lines_take fragment_lines_drop take_map drop_map comp_def)
qed

lemma place_replicons_result:
  assumes "\<forall>r\<in>set rows. plasmid_name r \<noteq> None \<and> (is_classified r \<longrightarrow> placeable r)"
  shows "place_replicons (map (\<lambda>c. (c, group_items c rows)) names) st =
     Inr (st\<lparr>chrom_lines := chrom_lines st @ concat (map (\<lambda>c. primary_lines c rows) names),
              unloc_lines := unloc_lines st @ concat (map (\<lambda>c. fragment_lines c rows) names),
              total_placed := total_placed st
                 + length (concat (map (\<lambda>c. primary_lines c rows) names)),
              total_unlocalised := total_unlocalised st
                 + length (concat (map (\<lambda>c. fragment_lines c rows) names))\<rparr>)"
proof (induction names arbitrary: st)
  case Nil
  then show ?case by simp
next
  case (Cons c names)
  show ?case by (simp add: place_group [OF assms] Cons.IH)
qed

lemma sorted_items:
  assumes dist: "distinct (map fst d)"
    and keys: "set (map fst d) = replicon_of ` set (filter is_classified rows)"
    and vals: "\<forall>c. lookup_list d c = group_items c rows"
  shows "sort_key fst d = map (\<lambda>c. (c, group_items c rows)) (replicon_names rows)"
proof (rule map_sorted_distinct_set_unique [where f = fst])
  let ?L = "sort_key fst d"
  let ?M = "map (\<lambda>c. (c, group_items c rows)) (replicon_names rows)"
  have names: "set (replicon_names rows) = replicon_of ` set (filter is_classified rows)"
    by (simp add: replicon_names_def)
  have mem: "x \<in> set d \<longleftrightarrow> fst x \<in> set (map fst d) \<and> snd x = group_items (fst x) rows" for x
  proof -
    obtain c vs where x: "x = (c, vs)" by (cases x)
    have "(c, vs) \<in> set d \<longleftrightarrow> map_of d c = Some vs" using dist by simp
    also have "\<dots> \<longleftrightarrow> c \<in> set (map fst d) \<and> vs = group_items c rows"
    proof (cases "map_of d c")
      case None
      then show ?thesis using map_of_eq_None_iff [of d c] by auto
    next
      case (Some ws)
      then have "c \<in> set (map fst d)" by (metis map_of_eq_None_iff option.distinct(1) set_map)
      moreover have "ws = group_items c rows" using vals Some by (auto simp: lookup_list_def split: option.splits)
      ultimately show ?thesis using Some by auto
    qed
    finally show ?thesis by (simp add: x)
  qed
  show sets: "set ?L = set ?M"
  proof (rule set_eqI)
    fix x
    show "x \<in> set ?L \<longleftrightarrow> x \<in> set ?M"
      using mem [of x] unfolding keys names [symmetric] by (cases x) auto
  qed
  have inj: "inj_on fst (set d)" using dist by (simp add: distinct_map)
  show "inj_on fst (set ?L \<union> set ?M)" using inj sets by simp
  show "sorted (map fst ?L)" by simp
  show "distinct (map fst ?L)" using dist inj by (simp add: distinct_map)
  have m: "map fst ?M = replicon_names rows" by (simp add: comp_def)
  show "sorted (map fst ?M)" unfolding m by (simp add: replicon_names_def)
  show "distinct (map fst ?M)" unfolding m by (simp add: replicon_names_def)
qed

lemma classified_mode_result:
  assumes wf: "\<forall>r\<in>set rows. plasmid_name r \<noteq> None \<and> (is_classified r \<longrightarrow> placeable r)"
  shows "classified_mode rows =
     Inr \<lparr>chrom_lines = concat (map (\<lambda>c. primary_lines c rows) (replicon_names rows)),
          unloc_lines = concat (map (\<lambda>c. fragment_lines c rows) (replicon_names rows)),
          total_placed = length (concat (map (\<lambda>c. primary_lines c rows) (replicon_names rows))),
          total_unlocalised = length (concat (map (\<lambda>c. fragment_lines c rows) (replicon_names rows))),
          total_unplaced = length (filter (\<lambda>r. \<not> is_classified r) rows)\<rparr>"
proof -
  from group_by_replicon_result [OF wf, of "[]" 0] obtain d' where
    r: "group_by_replicon rows [] 0 = Inr (d', length (filter (\<lambda>r. \<not> is_classified r) rows))"
    and dist: "distinct (map fst d')"
    and keys: "set (map fst d') = replicon_of ` set (filter is_classified rows)"
    and vals: "\<forall>c. lookup_list d' c = group_items c rows"
    by (auto simp: lookup_list_def group_items_def)
  show ?thesis
    unfolding classified_mode_def r
    by (simp add: sorted_items [OF dist keys vals] place_replicons_result [OF wf] no_placement_def)
qed

lemma complete_loop_eq:
  assumes "\<forall>r\<in>set rows. contig_id r \<noteq> None \<and> plasmid_name r \<noteq> None"
  shows "complete_loop t1 t2 t3 rows st =
     Inr (st\<lparr>chrom_lines := chrom_lines st @
                 map (\<lambda>r. chrom_line (contig_text r) (strip (call_text r)))
                   (filter (complete_placed t1 t2 t3) rows),
              total_placed := total_placed st + length (filter (complete_placed t1 t2 t3) rows),
              total_unplaced := total_unplaced st + length (filter (complete_unplaced t1 t2 t3) rows)\<rparr>)"
  using assms
proof (induction rows arbitrary: st)
  case Nil
  then show ?case by simp
next
  case (Cons row rows)
  have rest: "\<forall>r\<in>set rows. contig_id r \<noteq> None \<and> plasmid_name r \<noteq> None"
    using Cons.prems by simp
  have c: "strip_cell (contig_id row) = Inr (strip (contig_text row))"
    using Cons.prems by (simp add: strip_cell_contig)
  have n: "strip_cell (plasmid_name row) = Inr (strip (call_text row))"
    using Cons.prems by (simp add: strip_cell_call replicon_of_def)
  obtain b where b: "passes_completeness row t1 t2 t3 = Inr b"
    using passes_completeness_total by blast
  show ?case
  proof (cases "strip (contig_text row) = [] \<or> strip (call_text row) = []")
    case True
    then show ?thesis
      by (auto simp: c n Cons.IH [OF rest] complete_placed_def complete_unplaced_def)
  next
    case False
    then have p: "parse_contig_name (strip (contig_text row)) = Inr (first_token (strip (contig_text row)))"
      by (simp add: parse_contig_name_strip parse_contig_name_nonblank)
    show ?thesis using False b p
      by (cases b)
        (simp_all add: c n Cons.IH [OF rest] complete_placed_def complete_unplaced_def chrom_line_def)
  qed
qed

lemma by_length_desc_primary:
  assumes "c \<in> set (replicon_names rows)"
  shows "\<exists>p fs. by_length_desc (replicon_group c rows) = p # fs
           \<and> p \<in> set (replicon_group c rows)
           \<and> (\<forall>r\<in>set (replicon_group c rows). fragment_length r \<le> fragment_length p)
           \<and> mset (p # fs) = mset (replicon_group c rows)
           \<and> (\<exists>later. filter (\<lambda>r. fragment_length r = fragment_length p)
                          (replicon_group c rows) = p # later)
           \<and> primary_lines c rows = [chrom_line (contig_text p) c]
           \<and> fragment_lines c rows = map (\<lambda>f. unloc_line (contig_text f) c) fs"
proof -
  let ?g = "replicon_group c rows"
  from assms obtain r where "r \<in> set rows" "is_classified r" "replicon_of r = c"
    by (auto simp: replicon_names_def)
  then have "r \<in> set ?g" by (simp add: replicon_group_def)
  then have "by_length_desc ?g \<noteq> []"
    by (metis by_length_desc_def empty_iff empty_set set_sort)
  then obtain p fs where pf: "by_length_desc ?g = p # fs" by (cases "by_length_desc ?g") auto
  have m: "mset (p # fs) = mset ?g" unfolding pf [symmetric] by (simp add: by_length_desc_def)
  then have s: "set (p # fs) = set ?g" by (metis mset_eq_setD)
  have "sorted (map (\<lambda>r. - fragment_length r) (p # fs))"
    unfolding pf [symmetric] by (simp add: by_length_desc_def)
  then have "\<forall>r\<in>set (p # fs). fragment_length r \<le> fragment_length p" by auto
  then have mx: "\<forall>r\<in>set ?g. fragment_length r \<le> fragment_length p" unfolding s by blast
  have "filter (\<lambda>r. - fragment_length r = - fragment_length p) (by_length_desc ?g)
      = filter (\<lambda>r. - fragment_length r = - fragment_length p) ?g"
    unfolding by_length_desc_def by (rule sort_key_stable)
  then have st: "\<exists>later. filter (\<lambda>r. fragment_length r = fragment_length p) ?g = p # later"
    unfolding pf by (simp, metis)
  have "p \<in> set ?g" using s by auto
  then show ?thesis using pf m mx st by (simp add: primary_lines_def fragment_lines_def)
qed

lemma passes_completeness_ref_unknown:
  "ref_covered_length row = None \<or> ref_length row = None
   \<Longrightarrow> passes_completeness row t1 t2 t3 = Inr False"
proof -
  assume a: "ref_covered_length row = None \<or> ref_length row = None"
  have "passes_completeness row t1 t2 t3 \<noteq> Inr True"
    using a unfolding passes_completeness_iff by auto
  then show ?thesis using passes_completeness_total [of row t1 t2 t3] by auto
qed

lemma passes_completeness_zero_fraction:
  "percent_fraction (query_coverage_percent row) = Inr (Fin 0) \<and> flt (Fin 0) t2
     \<or> percent_fraction (overall_percent_identity row) = Inr (Fin 0) \<and> flt (Fin 0) t3
   \<Longrightarrow> passes_completeness row t1 t2 t3 = Inr False"
proof -
  assume a: "percent_fraction (query_coverage_percent row) = Inr (Fin 0) \<and> flt (Fin 0) t2
     \<or> percent_fraction (overall_percent_identity row) = Inr (Fin 0) \<and> flt (Fin 0) t3"
  have "passes_completeness row t1 t2 t3 \<noteq> Inr True"
    using a unfolding passes_completeness_iff flt_def by auto
  then show ?thesis using passes_completeness_total [of row t1 t2 t3] by auto
qed

text \<open>
  X4. The loops of the classified mode, on the rows of one assembly whose call cell is
  present and whose classified rows (a stripped call that is neither empty nor
  \<open>unclassified\<close> in any case) have a contig id with at least one token and a length that
  is not an infinity: the rows with an empty or \<open>unclassified\<close> call are counted as
  unplaced; the others are grouped by their stripped call; for each call, in sorted
  order, the chromosome list gets one entry, for the first fragment in the stable sort of
  the group by descending length (no fragment of the group is longer, and among the
  fragments of that length it is the first in input order), and the unlocalised list
  gets every other fragment of the group, under the same sanitized replicon name. For the
  fragments A (1000 bp, \<open>lp54\<close>), B (400 bp, \<open>lp54\<close>) and C (900 bp, \<open>chromosome\<close>) the
  chromosome list holds C as \<open>main\<close>, \<open>Linear-Chromosome\<close>, and A as \<open>lp54\<close>,
  \<open>Linear-Plasmid\<close>; the unlocalised list holds B as \<open>lp54\<close>.
\<close>

theorem classified_mode_placement:
  "((\<forall>r\<in>set rows. plasmid_name r \<noteq> None \<and> (is_classified r \<longrightarrow> placeable r)) \<longrightarrow>
      classified_mode rows =
        Inr \<lparr>chrom_lines = concat (map (\<lambda>c. primary_lines c rows) (replicon_names rows)),
             unloc_lines = concat (map (\<lambda>c. fragment_lines c rows) (replicon_names rows)),
             total_placed = length (replicon_names rows),
             total_unlocalised =
               length (concat (map (\<lambda>c. fragment_lines c rows) (replicon_names rows))),
             total_unplaced = length (filter (\<lambda>r. \<not> is_classified r) rows)\<rparr>
      \<and> (\<forall>c\<in>set (replicon_names rows). \<exists>p fs.
            by_length_desc (replicon_group c rows) = p # fs
            \<and> p \<in> set (replicon_group c rows)
            \<and> (\<forall>r\<in>set (replicon_group c rows). fragment_length r \<le> fragment_length p)
            \<and> mset (p # fs) = mset (replicon_group c rows)
            \<and> (\<exists>later. filter (\<lambda>r. fragment_length r = fragment_length p)
                           (replicon_group c rows) = p # later)
            \<and> primary_lines c rows = [chrom_line (contig_text p) c]
            \<and> fragment_lines c rows = map (\<lambda>f. unloc_line (contig_text f) c) fs))
   \<and> classified_mode
        [\<lparr>assembly_id = ''asm'', contig_id = Some ''A'', plasmid_name = Some ''lp54'',
           contig_len = Some (Fin 1000), ref_covered_length = None, ref_length = None,
           query_coverage_percent = None, overall_percent_identity = None\<rparr>,
         \<lparr>assembly_id = ''asm'', contig_id = Some ''B'', plasmid_name = Some ''lp54'',
           contig_len = Some (Fin 400), ref_covered_length = None, ref_length = None,
           query_coverage_percent = None, overall_percent_identity = None\<rparr>,
         \<lparr>assembly_id = ''asm'', contig_id = Some ''C'', plasmid_name = Some ''chromosome'',
           contig_len = Some (Fin 900), ref_covered_length = None, ref_length = None,
           query_coverage_percent = None, overall_percent_identity = None\<rparr>]
       = Inr \<lparr>chrom_lines = [''C'' @ tab @ ''main'' @ tab @ ''Linear-Chromosome'',
                              ''A'' @ tab @ ''lp54'' @ tab @ ''Linear-Plasmid''],
              unloc_lines = [''B'' @ tab @ ''lp54''],
              total_placed = 2, total_unlocalised = 1, total_unplaced = 0\<rparr>"
proof (intro conjI impI)
  assume wf: "\<forall>r\<in>set rows. plasmid_name r \<noteq> None \<and> (is_classified r \<longrightarrow> placeable r)"
  have one: "length (primary_lines c rows) = 1" if "c \<in> set (replicon_names rows)" for c
    using by_length_desc_primary [OF that] by auto
  have placed: "length (concat (map (\<lambda>c. primary_lines c rows) (replicon_names rows)))
      = length (replicon_names rows)"
    using one by (simp add: length_concat comp_def sum_list_triv cong: map_cong)
  show "classified_mode rows =
        Inr \<lparr>chrom_lines = concat (map (\<lambda>c. primary_lines c rows) (replicon_names rows)),
             unloc_lines = concat (map (\<lambda>c. fragment_lines c rows) (replicon_names rows)),
             total_placed = length (replicon_names rows),
             total_unlocalised =
               length (concat (map (\<lambda>c. fragment_lines c rows) (replicon_names rows))),
             total_unplaced = length (filter (\<lambda>r. \<not> is_classified r) rows)\<rparr>"
    unfolding classified_mode_result [OF wf] placed by simp
  show "\<forall>c\<in>set (replicon_names rows). \<exists>p fs.
            by_length_desc (replicon_group c rows) = p # fs
            \<and> p \<in> set (replicon_group c rows)
            \<and> (\<forall>r\<in>set (replicon_group c rows). fragment_length r \<le> fragment_length p)
            \<and> mset (p # fs) = mset (replicon_group c rows)
            \<and> (\<exists>later. filter (\<lambda>r. fragment_length r = fragment_length p)
                           (replicon_group c rows) = p # later)
            \<and> primary_lines c rows = [chrom_line (contig_text p) c]
            \<and> fragment_lines c rows = map (\<lambda>f. unloc_line (contig_text f) c) fs"
    using by_length_desc_primary by blast
next
  show "classified_mode
        [\<lparr>assembly_id = ''asm'', contig_id = Some ''A'', plasmid_name = Some ''lp54'',
           contig_len = Some (Fin 1000), ref_covered_length = None, ref_length = None,
           query_coverage_percent = None, overall_percent_identity = None\<rparr>,
         \<lparr>assembly_id = ''asm'', contig_id = Some ''B'', plasmid_name = Some ''lp54'',
           contig_len = Some (Fin 400), ref_covered_length = None, ref_length = None,
           query_coverage_percent = None, overall_percent_identity = None\<rparr>,
         \<lparr>assembly_id = ''asm'', contig_id = Some ''C'', plasmid_name = Some ''chromosome'',
           contig_len = Some (Fin 900), ref_covered_length = None, ref_length = None,
           query_coverage_percent = None, overall_percent_identity = None\<rparr>]
       = Inr \<lparr>chrom_lines = [''C'' @ tab @ ''main'' @ tab @ ''Linear-Chromosome'',
                              ''A'' @ tab @ ''lp54'' @ tab @ ''Linear-Plasmid''],
              unloc_lines = [''B'' @ tab @ ''lp54''],
              total_placed = 2, total_unlocalised = 1, total_unplaced = 0\<rparr>"
    by code_simp
qed

theorem classified_mode_placement_witness:
  "classified_mode
     [\<lparr>assembly_id = ''asm'', contig_id = Some ''X [topology=circular]'',
        plasmid_name = Some '' cp26'',
        contig_len = Some (Fin 500), ref_covered_length = None, ref_length = None,
        query_coverage_percent = None, overall_percent_identity = None\<rparr>,
      \<lparr>assembly_id = ''asm'', contig_id = Some ''Y'', plasmid_name = Some ''cp26'',
        contig_len = Some (Fin 700), ref_covered_length = None, ref_length = None,
        query_coverage_percent = None, overall_percent_identity = None\<rparr>,
      \<lparr>assembly_id = ''asm'', contig_id = None, plasmid_name = Some ''Unclassified'',
        contig_len = None, ref_covered_length = None, ref_length = None,
        query_coverage_percent = None, overall_percent_identity = None\<rparr>]
   = Inr \<lparr>chrom_lines = [''Y'' @ tab @ ''cp26'' @ tab @ ''Circular-Plasmid''],
          unloc_lines = [''X'' @ tab @ ''cp26''],
          total_placed = 1, total_unlocalised = 1, total_unplaced = 1\<rparr>"
  (is "classified_mode ?rows = Inr ?res")
proof -
  have wf: "\<forall>r\<in>set ?rows. plasmid_name r \<noteq> None \<and> (is_classified r \<longrightarrow> placeable r)"
    by code_simp
  have "classified_mode ?rows =
        Inr \<lparr>chrom_lines = concat (map (\<lambda>c. primary_lines c ?rows) (replicon_names ?rows)),
             unloc_lines = concat (map (\<lambda>c. fragment_lines c ?rows) (replicon_names ?rows)),
             total_placed = length (replicon_names ?rows),
             total_unlocalised =
               length (concat (map (\<lambda>c. fragment_lines c ?rows) (replicon_names ?rows))),
             total_unplaced = length (filter (\<lambda>r. \<not> is_classified r) ?rows)\<rparr>"
    using wf classified_mode_placement [of ?rows] by blast
  also have "\<dots> = Inr ?res"
    by code_simp
  finally show ?thesis .
qed

text \<open>A row shorter than the header has \<open>None\<close> in its missing cells, and \<open>.strip()\<close> on it
  raises \<open>AttributeError\<close>: in the classified mode at line 186 (the call) or line 203
  (the contig id of a classified row), in the complete mode at lines 224 and 225.\<close>

lemma short_row_raises:
  "classified_mode
     [\<lparr>assembly_id = ''asm'', contig_id = Some ''A'', plasmid_name = None,
        contig_len = None, ref_covered_length = None, ref_length = None,
        query_coverage_percent = None, overall_percent_identity = None\<rparr>] = Inl AttributeError
   \<and> classified_mode
     [\<lparr>assembly_id = ''asm'', contig_id = None, plasmid_name = Some ''lp54'',
        contig_len = None, ref_covered_length = None, ref_length = None,
        query_coverage_percent = None, overall_percent_identity = None\<rparr>] = Inl AttributeError
   \<and> complete_mode t1 t2 t3
     [\<lparr>assembly_id = ''asm'', contig_id = Some ''A'', plasmid_name = None,
        contig_len = None, ref_covered_length = None, ref_length = None,
        query_coverage_percent = None, overall_percent_identity = None\<rparr>] = Inl AttributeError
   \<and> complete_mode t1 t2 t3
     [\<lparr>assembly_id = ''asm'', contig_id = None, plasmid_name = Some ''lp54'',
        contig_len = None, ref_covered_length = None, ref_length = None,
        query_coverage_percent = None, overall_percent_identity = None\<rparr>] = Inl AttributeError"
proof -
  have s: "strip ''lp54'' = ''lp54'' \<and> lower ''lp54'' = ''lp54''"
    by code_simp
  show ?thesis
    using s by (simp add: classified_mode_def complete_mode_def strip_cell_def no_placement_def
        contig_len_int_def)
qed

text \<open>
  C8. In classified mode the fragments of one assembly are grouped by replicon call, the
  longest fragment of a group is the primary entry of the chromosome list and the others
  go to the unlocalised list. The loop does not do this for every assembly: a classified
  fragment whose contig id is empty makes \<open>parse_contig_name\<close> raise \<open>IndexError\<close> at line
  204 (the complete mode skips such a row, at line 227, whatever the thresholds), and a
  classified fragment whose length cell reads as an infinity makes \<open>int(float(cell))\<close>
  raise \<open>OverflowError\<close>, which the \<open>except (ValueError, TypeError)\<close> of lines 190 to 193
  does not catch. In both cases the run ends and no list is written.
\<close>

theorem classified_mode_raises:
  "classified_mode
     [\<lparr>assembly_id = ''asm'', contig_id = Some [], plasmid_name = Some ''lp54'',
        contig_len = Some (Fin 1000), ref_covered_length = None, ref_length = None,
        query_coverage_percent = None, overall_percent_identity = None\<rparr>] = Inl IndexError
   \<and> complete_mode (Fin 0) (Fin 0) (Fin 0)
     [\<lparr>assembly_id = ''asm'', contig_id = Some [], plasmid_name = Some ''lp54'',
        contig_len = Some (Fin 1000), ref_covered_length = None, ref_length = None,
        query_coverage_percent = None, overall_percent_identity = None\<rparr>] = Inr no_placement
   \<and> classified_mode
     [\<lparr>assembly_id = ''asm'', contig_id = Some ''A'', plasmid_name = Some ''lp54'',
        contig_len = Some PosInf, ref_covered_length = None, ref_length = None,
        query_coverage_percent = None, overall_percent_identity = None\<rparr>] = Inl OverflowError
   \<and> contig_len_int (Some NaN) = Inr 0"
  by code_simp

lemma fle_095_53_54: "fle (round_double (95 / 100)) (round_double (53 / 54))"
  by code_simp

lemma fle_09_099: "fle (round_double (9 / 10)) (round_double (99 / 100))"
  by code_simp

lemma fle_09_098: "fle (round_double (9 / 10)) (round_double (98 / 100))"
  by code_simp

lemma fle_09_090: "fle (round_double (9 / 10)) (round_double (9 / 10))"
  by code_simp

lemma not_fle_09_085: "\<not> fle (round_double (9 / 10)) (round_double (85 / 100))"
  by code_simp

lemma not_fle_09_00095: "\<not> fle (round_double (9 / 10)) (round_double (95 / 10000))"
  by code_simp

lemma flt_0_09: "flt (Fin 0) (round_double (9 / 10))"
  by code_simp

lemma flt_0_54000: "flt (Fin 0) (Fin 54000)"
  by code_simp

lemma contig_1_line:
  "strip ''contig_1'' = ''contig_1'' \<and> strip ''lp54'' = ''lp54''
   \<and> parse_contig_name ''contig_1'' = Inr ''contig_1''
   \<and> sanitize_replicon_name ''lp54'' = ''lp54''
   \<and> format_topology (infer_topology ''lp54'') (infer_chromosome_type ''lp54'') = ''Linear-Plasmid''"
  by code_simp

lemma percent_fraction_eq:
  "percent_fraction cell = Inr q \<longleftrightarrow>
     (cell = None \<and> q = Fin 0 \<or> (\<exists>p. cell = Some p \<and> truediv p (Fin 100) = Inr q))"
  by (cases cell) (auto simp: percent_fraction_def)

text \<open>
  C9 (amended). \<open>passes_completeness\<close> always returns, and returns true exactly when the
  reference lengths are known, the reference length is positive, covered length divided
  by reference length is at least \<open>ref_cov_thresh\<close>, query coverage percent divided by 100
  is at least \<open>query_cov_thresh\<close> and identity percent divided by 100 is at least
  \<open>identity_thresh\<close>, where a percentage that fails to parse counts as the fraction 0.0
  and the quotient of a finite percentage \<open>p\<close> by 100 is the binary64 value nearest to
  \<open>p / 100\<close>. A reference field that fails to parse makes the coverage unknown and the
  fragment is not placed; a fragment whose percentage fails to parse is not placed when
  the threshold of that percentage is positive. In complete mode, for rows whose contig id
  and call cells are present, the chromosome list holds the rows with a non-empty contig
  id and call that pass, in input order; the other rows are omitted and the unlocalised
  list stays empty.
\<close>

theorem complete_mode_placement:
  "(passes_completeness row t1 t2 t3 = Inr True \<or> passes_completeness row t1 t2 t3 = Inr False)
   \<and> (passes_completeness row t1 t2 t3 = Inr True \<longleftrightarrow>
        (\<exists>rcl rl cov.
           ref_covered_length row = Some rcl \<and> ref_length row = Some rl \<and> flt (Fin 0) rl
           \<and> truediv rcl rl = Inr cov \<and> fle t1 cov)
        \<and> (\<exists>q. (query_coverage_percent row = None \<and> q = Fin 0
                  \<or> (\<exists>p. query_coverage_percent row = Some p \<and> truediv p (Fin 100) = Inr q))
               \<and> fle t2 q)
        \<and> (\<exists>i. (overall_percent_identity row = None \<and> i = Fin 0
                  \<or> (\<exists>p. overall_percent_identity row = Some p \<and> truediv p (Fin 100) = Inr i))
               \<and> fle t3 i))
   \<and> truediv (Fin p) (Fin 100) = Inr (round_double (p / 100))
   \<and> (ref_covered_length row = None \<or> ref_length row = None
        \<longrightarrow> passes_completeness row t1 t2 t3 = Inr False)
   \<and> (query_coverage_percent row = None \<and> flt (Fin 0) t2
        \<longrightarrow> passes_completeness row t1 t2 t3 = Inr False)
   \<and> (overall_percent_identity row = None \<and> flt (Fin 0) t3
        \<longrightarrow> passes_completeness row t1 t2 t3 = Inr False)
   \<and> ((\<forall>r\<in>set rows. contig_id r \<noteq> None \<and> plasmid_name r \<noteq> None) \<longrightarrow>
        complete_mode t1 t2 t3 rows =
          Inr \<lparr>chrom_lines = map (\<lambda>r. chrom_line (contig_text r) (strip (call_text r)))
                               (filter (complete_placed t1 t2 t3) rows),
               unloc_lines = [],
               total_placed = length (filter (complete_placed t1 t2 t3) rows),
               total_unlocalised = 0,
               total_unplaced = length (filter (complete_unplaced t1 t2 t3) rows)\<rparr>)"
proof (intro conjI impI)
  show "passes_completeness row t1 t2 t3 = Inr True \<or> passes_completeness row t1 t2 t3 = Inr False"
    using passes_completeness_total [of row t1 t2 t3] by auto
  show "passes_completeness row t1 t2 t3 = Inr True \<longleftrightarrow>
        (\<exists>rcl rl cov.
           ref_covered_length row = Some rcl \<and> ref_length row = Some rl \<and> flt (Fin 0) rl
           \<and> truediv rcl rl = Inr cov \<and> fle t1 cov)
        \<and> (\<exists>q. (query_coverage_percent row = None \<and> q = Fin 0
                  \<or> (\<exists>p. query_coverage_percent row = Some p \<and> truediv p (Fin 100) = Inr q))
               \<and> fle t2 q)
        \<and> (\<exists>i. (overall_percent_identity row = None \<and> i = Fin 0
                  \<or> (\<exists>p. overall_percent_identity row = Some p \<and> truediv p (Fin 100) = Inr i))
               \<and> fle t3 i)"
    unfolding passes_completeness_iff percent_fraction_eq by blast
  show "truediv (Fin p) (Fin 100) = Inr (round_double (p / 100))"
    by simp
  show "passes_completeness row t1 t2 t3 = Inr False"
    if "ref_covered_length row = None \<or> ref_length row = None"
    using that by (rule passes_completeness_ref_unknown)
  show "passes_completeness row t1 t2 t3 = Inr False"
    if "query_coverage_percent row = None \<and> flt (Fin 0) t2"
    using that passes_completeness_zero_fraction [of row t2 t3 t1]
    by (simp add: percent_fraction_def)
  show "passes_completeness row t1 t2 t3 = Inr False"
    if "overall_percent_identity row = None \<and> flt (Fin 0) t3"
    using that passes_completeness_zero_fraction [of row t2 t3 t1]
    by (simp add: percent_fraction_def)
  show "complete_mode t1 t2 t3 rows =
          Inr \<lparr>chrom_lines = map (\<lambda>r. chrom_line (contig_text r) (strip (call_text r)))
                               (filter (complete_placed t1 t2 t3) rows),
               unloc_lines = [],
               total_placed = length (filter (complete_placed t1 t2 t3) rows),
               total_unlocalised = 0,
               total_unplaced = length (filter (complete_unplaced t1 t2 t3) rows)\<rparr>"
    if "\<forall>r\<in>set rows. contig_id r \<noteq> None \<and> plasmid_name r \<noteq> None"
    by (simp add: complete_mode_def complete_loop_eq [OF that] no_placement_def)
qed

lemma contig_1_gcode_line:
  "strip ''contig_1 [gcode=11]'' \<noteq> [] \<and> strip ''lp54'' \<noteq> []
   \<and> strip ''contig_2'' \<noteq> [] \<and> strip ''cp26'' \<noteq> []
   \<and> strip ''contig_4'' \<noteq> [] \<and> strip ''lp28-1'' \<noteq> []
   \<and> chrom_line ''contig_1 [gcode=11]'' (strip ''lp54'')
       = ''contig_1'' @ tab @ ''lp54'' @ tab @ ''Linear-Plasmid''"
  by code_simp

theorem complete_mode_placement_witness:
  "passes_completeness
      \<lparr>assembly_id = ''asm'', contig_id = Some ''contig_2'', plasmid_name = Some ''cp26'',
        contig_len = Some (Fin 26000), ref_covered_length = Some (Fin 26000), ref_length = None,
        query_coverage_percent = Some (Fin 100), overall_percent_identity = Some (Fin 100)\<rparr>
      (round_double (95 / 100)) (round_double (9 / 10)) (round_double (9 / 10)) = Inr False
   \<and> passes_completeness
      \<lparr>assembly_id = ''asm'', contig_id = Some ''contig_3'', plasmid_name = Some ''lp17'',
        contig_len = Some (Fin 17000), ref_covered_length = Some (Fin 17000),
        ref_length = Some (Fin 17000),
        query_coverage_percent = None, overall_percent_identity = Some (Fin 100)\<rparr>
      (round_double (95 / 100)) (round_double (9 / 10)) (round_double (9 / 10)) = Inr False
   \<and> passes_completeness
      \<lparr>assembly_id = ''asm'', contig_id = Some ''contig_4'', plasmid_name = Some ''lp28-1'',
        contig_len = Some (Fin 54000), ref_covered_length = Some (Fin 53000),
        ref_length = Some (Fin 54000),
        query_coverage_percent = Some (Fin 85), overall_percent_identity = Some (Fin 99)\<rparr>
      (round_double (95 / 100)) (round_double (9 / 10)) (round_double (9 / 10)) = Inr False
   \<and> passes_completeness
      \<lparr>assembly_id = ''asm'', contig_id = Some ''contig_5'', plasmid_name = Some ''lp28-2'',
        contig_len = Some (Fin 54000), ref_covered_length = Some (Fin 53000),
        ref_length = Some (Fin 54000),
        query_coverage_percent = Some (Fin 98),
        overall_percent_identity = Some (Fin (95 / 100))\<rparr>
      (round_double (95 / 100)) (round_double (9 / 10)) (round_double (9 / 10)) = Inr False
   \<and> passes_completeness
      \<lparr>assembly_id = ''asm'', contig_id = Some ''contig_6'', plasmid_name = Some ''lp36'',
        contig_len = Some (Fin 54000), ref_covered_length = Some (Fin 53000),
        ref_length = Some (Fin 54000),
        query_coverage_percent = Some (Fin 90), overall_percent_identity = Some (Fin 90)\<rparr>
      (round_double (95 / 100)) (round_double (9 / 10)) (round_double (9 / 10)) = Inr True
   \<and> complete_mode (round_double (95 / 100)) (round_double (9 / 10)) (round_double (9 / 10))
      [\<lparr>assembly_id = ''asm'', contig_id = Some ''contig_1 [gcode=11]'',
         plasmid_name = Some ''lp54'',
         contig_len = Some (Fin 54000), ref_covered_length = Some (Fin 53000),
         ref_length = Some (Fin 54000),
         query_coverage_percent = Some (Fin 98), overall_percent_identity = Some (Fin 99)\<rparr>,
       \<lparr>assembly_id = ''asm'', contig_id = Some ''contig_4'', plasmid_name = Some ''lp28-1'',
         contig_len = Some (Fin 54000), ref_covered_length = Some (Fin 53000),
         ref_length = Some (Fin 54000),
         query_coverage_percent = Some (Fin 85), overall_percent_identity = Some (Fin 99)\<rparr>,
       \<lparr>assembly_id = ''asm'', contig_id = Some ''contig_2'', plasmid_name = Some ''cp26'',
         contig_len = Some (Fin 26000), ref_covered_length = Some (Fin 26000), ref_length = None,
         query_coverage_percent = Some (Fin 100), overall_percent_identity = Some (Fin 100)\<rparr>]
      = Inr \<lparr>chrom_lines = [''contig_1'' @ tab @ ''lp54'' @ tab @ ''Linear-Plasmid''],
             unloc_lines = [], total_placed = 1, total_unlocalised = 0, total_unplaced = 2\<rparr>"
  (is "passes_completeness ?a ?t1 ?t2 ?t3 = Inr False
       \<and> passes_completeness ?b ?t1 ?t2 ?t3 = Inr False
       \<and> passes_completeness ?c ?t1 ?t2 ?t3 = Inr False
       \<and> passes_completeness ?d ?t1 ?t2 ?t3 = Inr False
       \<and> passes_completeness ?h ?t1 ?t2 ?t3 = Inr True
       \<and> complete_mode ?t1 ?t2 ?t3 [?g, ?c, ?a] = Inr ?res")
proof -
  have a: "ref_covered_length ?a = None \<or> ref_length ?a = None"
    by simp
  have 1: "passes_completeness ?a ?t1 ?t2 ?t3 = Inr False"
    using a complete_mode_placement [of ?a ?t1 ?t2 ?t3 0 "[]"] by blast
  have b: "query_coverage_percent ?b = None \<and> flt (Fin 0) ?t2"
    using flt_0_09 by simp
  have 2: "passes_completeness ?b ?t1 ?t2 ?t3 = Inr False"
    using b complete_mode_placement [of ?b ?t1 ?t2 ?t3 0 "[]"] by blast
  have q85: "truediv (Fin 85) (Fin 100) = Inr (round_double (85 / 100))"
    using complete_mode_placement [of ?c ?t1 ?t2 ?t3 85 "[]"] by blast
  have c: "\<not> (\<exists>q. (query_coverage_percent ?c = None \<and> q = Fin 0
                  \<or> (\<exists>p. query_coverage_percent ?c = Some p \<and> truediv p (Fin 100) = Inr q))
               \<and> fle ?t2 q)"
    using not_fle_09_085 unfolding q85 [symmetric] by auto
  have 3: "passes_completeness ?c ?t1 ?t2 ?t3 = Inr False"
    using c complete_mode_placement [of ?c ?t1 ?t2 ?t3 0 "[]"] by blast
  have i095: "truediv (Fin (95 / 100)) (Fin 100) = Inr (round_double (95 / 10000))"
    using complete_mode_placement [of ?d ?t1 ?t2 ?t3 "95 / 100" "[]"] by simp
  have d: "\<not> (\<exists>i. (overall_percent_identity ?d = None \<and> i = Fin 0
                  \<or> (\<exists>p. overall_percent_identity ?d = Some p \<and> truediv p (Fin 100) = Inr i))
               \<and> fle ?t3 i)"
    using not_fle_09_00095 unfolding i095 [symmetric] by auto
  have 4: "passes_completeness ?d ?t1 ?t2 ?t3 = Inr False"
    using d complete_mode_placement [of ?d ?t1 ?t2 ?t3 0 "[]"] by blast
  have cov: "truediv (Fin 53000) (Fin 54000) = Inr (round_double (53 / 54))"
    by simp
  have q90: "truediv (Fin 90) (Fin 100) = Inr (round_double (9 / 10))"
    using complete_mode_placement [of ?h ?t1 ?t2 ?t3 90 "[]"] by simp
  have h: "(\<exists>rcl rl cov.
           ref_covered_length ?h = Some rcl \<and> ref_length ?h = Some rl \<and> flt (Fin 0) rl
           \<and> truediv rcl rl = Inr cov \<and> fle ?t1 cov)
        \<and> (\<exists>q. (query_coverage_percent ?h = None \<and> q = Fin 0
                  \<or> (\<exists>p. query_coverage_percent ?h = Some p \<and> truediv p (Fin 100) = Inr q))
               \<and> fle ?t2 q)
        \<and> (\<exists>i. (overall_percent_identity ?h = None \<and> i = Fin 0
                  \<or> (\<exists>p. overall_percent_identity ?h = Some p \<and> truediv p (Fin 100) = Inr i))
               \<and> fle ?t3 i)"
    using flt_0_54000 cov fle_095_53_54 q90 fle_09_090 by auto
  have 5: "passes_completeness ?h ?t1 ?t2 ?t3 = Inr True"
    using h complete_mode_placement [of ?h ?t1 ?t2 ?t3 0 "[]"] by blast
  have g: "passes_completeness ?g ?t1 ?t2 ?t3 = Inr True"
    using fle_095_53_54 fle_09_099 fle_09_098
    by (simp add: passes_completeness_def compute_ref_coverage_def percent_fraction_def)
  have present: "\<forall>r\<in>set [?g, ?c, ?a]. contig_id r \<noteq> None \<and> plasmid_name r \<noteq> None"
    by simp
  have "complete_mode ?t1 ?t2 ?t3 [?g, ?c, ?a] =
        Inr \<lparr>chrom_lines = map (\<lambda>r. chrom_line (contig_text r) (strip (call_text r)))
                             (filter (complete_placed ?t1 ?t2 ?t3) [?g, ?c, ?a]),
             unloc_lines = [],
             total_placed = length (filter (complete_placed ?t1 ?t2 ?t3) [?g, ?c, ?a]),
             total_unlocalised = 0,
             total_unplaced = length (filter (complete_unplaced ?t1 ?t2 ?t3) [?g, ?c, ?a])\<rparr>"
    using present complete_mode_placement [of ?a ?t1 ?t2 ?t3 0 "[?g, ?c, ?a]"] by blast
  also have "\<dots> = Inr ?res"
    using 1 3 g contig_1_gcode_line
    by (simp add: complete_placed_def complete_unplaced_def contig_text_def call_text_def)
  finally have 6: "complete_mode ?t1 ?t2 ?t3 [?g, ?c, ?a] = Inr ?res" .
  show ?thesis using 1 2 3 4 5 6 by blast
qed

text \<open>The claim as first stated says that a fragment with a stat field that fails to parse
  is not placed. With the query-coverage threshold 0.0, a fragment whose query coverage
  fails to parse, and whose other statistics pass, is placed.\<close>

theorem complete_mode_places_unparsable:
  "passes_completeness
      \<lparr>assembly_id = ''asm'', contig_id = Some ''contig_1'', plasmid_name = Some ''lp54'',
        contig_len = Some (Fin 54000), ref_covered_length = Some (Fin 53000),
        ref_length = Some (Fin 54000),
        query_coverage_percent = None, overall_percent_identity = Some (Fin 99)\<rparr>
      (round_double (95 / 100)) (Fin 0) (round_double (9 / 10)) = Inr True
   \<and> complete_mode (round_double (95 / 100)) (Fin 0) (round_double (9 / 10))
      [\<lparr>assembly_id = ''asm'', contig_id = Some ''contig_1'', plasmid_name = Some ''lp54'',
         contig_len = Some (Fin 54000), ref_covered_length = Some (Fin 53000),
         ref_length = Some (Fin 54000),
         query_coverage_percent = None, overall_percent_identity = Some (Fin 99)\<rparr>]
      = Inr \<lparr>chrom_lines = [''contig_1'' @ tab @ ''lp54'' @ tab @ ''Linear-Plasmid''],
             unloc_lines = [], total_placed = 1, total_unlocalised = 0, total_unplaced = 0\<rparr>"
  (is "passes_completeness ?row ?t1 ?t2 ?t3 = Inr True \<and> _")
proof -
  have p: "passes_completeness ?row ?t1 ?t2 ?t3 = Inr True"
    using fle_095_53_54 fle_09_099
    by (simp add: passes_completeness_def compute_ref_coverage_def percent_fraction_def)
  show ?thesis
    using p contig_1_line
    by (simp add: complete_mode_def no_placement_def strip_cell_def)
qed

section \<open>Properties of add\_replicon\_to\_gml.py\<close>

lemma map_fst_counter_add:
  "map fst (counter_add d k) = (if k \<in> set (map fst d) then map fst d else map fst d @ [k])"
proof (induction d)
  case Nil
  then show ?case by simp
next
  case (Cons a d)
  obtain k' n where a: "a = (k', n)" by (cases a)
  show ?case unfolding a using Cons.IH by (cases "k' = k") simp_all
qed

lemma map_of_counter_add:
  "map_of (counter_add d k) = (map_of d)(k \<mapsto> (case map_of d k of None \<Rightarrow> 1 | Some n \<Rightarrow> n + 1))"
  by (induction d) (auto simp: fun_eq_iff)

lemma Counter_snoc: "Counter (xs @ [x]) = counter_add (Counter xs) x"
  by (simp add: Counter_def)

lemma count_list_snoc: "count_list (xs @ [x]) c = count_list xs c + (if x = c then 1 else 0)"
  by (induction xs) auto

lemma Counter_keys:
  "distinct (map fst (Counter xs)) \<and> set (map fst (Counter xs)) = set xs"
proof (induction xs rule: rev_induct)
  case Nil
  then show ?case by (simp add: Counter_def)
next
  case (snoc x xs)
  then show ?case unfolding Counter_snoc map_fst_counter_add by auto
qed

lemma Counter_counts:
  "map_of (Counter xs) c = (if c \<in> set xs then Some (count_list xs c) else None)"
proof (induction xs rule: rev_induct)
  case Nil
  then show ?case by (simp add: Counter_def)
next
  case (snoc x xs)
  show ?case
    unfolding Counter_snoc map_of_counter_add count_list_snoc
    using snoc by (auto simp: count_list_0_iff)
qed

lemma takeWhile_until_last:
  "tc \<notin> set K \<Longrightarrow> takeWhile (\<lambda>k. k \<noteq> tc) (K @ [tc]) = K"
  by (induction K) auto

lemma takeWhile_before_snoc:
  "tc \<in> set K \<Longrightarrow> takeWhile (\<lambda>k. k \<noteq> tc) (K @ [x]) = takeWhile (\<lambda>k. k \<noteq> tc) K"
  by (induction K) auto

lemma Counter_first_occurrences:
  "tc \<in> set xs \<Longrightarrow>
     set (takeWhile (\<lambda>k. k \<noteq> tc) (map fst (Counter xs))) = set (takeWhile (\<lambda>x. x \<noteq> tc) xs)"
proof (induction xs rule: rev_induct)
  case Nil
  then show ?case by simp
next
  case (snoc x xs)
  let ?K = "map fst (Counter xs)"
  have K: "set ?K = set xs" using Counter_keys by blast
  show ?case
  proof (cases "tc \<in> set xs")
    case True
    then have "tc \<in> set ?K" using K by simp
    then have "takeWhile (\<lambda>k. k \<noteq> tc) (?K @ [x]) = takeWhile (\<lambda>k. k \<noteq> tc) ?K"
      by (rule takeWhile_before_snoc)
    moreover have "takeWhile (\<lambda>k. k \<noteq> tc) (xs @ [x]) = takeWhile (\<lambda>k. k \<noteq> tc) xs"
      using True by (rule takeWhile_before_snoc)
    ultimately show ?thesis
      unfolding Counter_snoc map_fst_counter_add using snoc.IH [OF True] by simp
  next
    case False
    then have x: "x = tc" using snoc.prems by simp
    have nK: "tc \<notin> set ?K" using False K by simp
    have "takeWhile (\<lambda>k. k \<noteq> tc) (?K @ [tc]) = ?K"
      using nK by (rule takeWhile_until_last)
    moreover have "takeWhile (\<lambda>k. k \<noteq> tc) (xs @ [tc]) = xs"
      using False by (rule takeWhile_until_last)
    ultimately show ?thesis
      unfolding Counter_snoc map_fst_counter_add x using K nK by simp
  qed
qed

lemma max_first_split:
  assumes "\<forall>y\<in>set pre. snd y < snd b" "\<forall>y\<in>set mid. snd y \<le> snd b"
  shows "\<exists>pre' post. pre @ b # mid @ l = pre' @ max_first b l # post
           \<and> (\<forall>y\<in>set pre'. snd y < snd (max_first b l))
           \<and> (\<forall>y\<in>set post. snd y \<le> snd (max_first b l))"
  using assms
proof (induction l arbitrary: b pre mid)
  case Nil
  then show ?case by auto
next
  case (Cons x xs)
  show ?case
  proof (cases "snd b < snd x")
    case True
    have 1: "\<forall>y\<in>set (pre @ b # mid). snd y < snd x"
      using Cons.prems True by auto
    have 2: "\<forall>y\<in>set ([] :: (string \<times> nat) list). snd y \<le> snd x" by simp
    from Cons.IH [OF 1 2] show ?thesis using True by simp
  next
    case False
    have 2: "\<forall>y\<in>set (mid @ [x]). snd y \<le> snd b"
      using Cons.prems False by auto
    from Cons.IH [OF Cons.prems(1) 2] show ?thesis using False by simp
  qed
qed

lemma Counter_member:
  "(k, n) \<in> set (Counter xs) \<Longrightarrow> k \<in> set xs \<and> n = count_list xs k"
proof -
  assume a: "(k, n) \<in> set (Counter xs)"
  have "distinct (map fst (Counter xs))" using Counter_keys by blast
  then have "map_of (Counter xs) k = Some n" using a by simp
  then show ?thesis unfolding Counter_counts by (auto split: if_splits)
qed

lemma takeWhile_distinct_key:
  "k \<notin> set ks \<Longrightarrow> takeWhile (\<lambda>x. x \<noteq> k) (ks @ k # rest) = ks"
  by (induction ks) auto

lemma most_common_first:
  assumes "xs \<noteq> []"
  shows "\<exists>c cs tc. Counter xs = c # cs \<and> max_first c cs = (tc, count_list xs tc)
           \<and> tc \<in> set xs
           \<and> (\<forall>k. count_list xs k \<le> count_list xs tc)
           \<and> (\<forall>k\<in>set (takeWhile (\<lambda>x. x \<noteq> tc) xs). count_list xs k < count_list xs tc)"
proof -
  have keys: "distinct (map fst (Counter xs))" "set (map fst (Counter xs)) = set xs"
    using Counter_keys by blast+
  then have "Counter xs \<noteq> []" using assms by auto
  then obtain c cs where ccs: "Counter xs = c # cs" by (cases "Counter xs") auto
  obtain tc n where m: "max_first c cs = (tc, n)" by (cases "max_first c cs")
  from max_first_split [of "[]" c "[]" cs] obtain pre post where
    split: "c # cs = pre @ (tc, n) # post"
    and pre: "\<forall>y\<in>set pre. snd y < n"
    and post: "\<forall>y\<in>set post. snd y \<le> n"
    unfolding m by auto
  have mem: "(tc, n) \<in> set (Counter xs)" unfolding ccs split by simp
  then have tc: "tc \<in> set xs" and n: "n = count_list xs tc"
    using Counter_member by blast+
  have le: "count_list xs k \<le> n" for k
  proof (cases "k \<in> set xs")
    case False
    then show ?thesis by (simp add: count_list_0_iff)
  next
    case True
    then have "map_of (Counter xs) k = Some (count_list xs k)" by (simp add: Counter_counts)
    then have "(k, count_list xs k) \<in> set (pre @ (tc, n) # post)"
      unfolding split [symmetric] ccs [symmetric] by (rule map_of_SomeD)
    then show ?thesis using pre post by auto
  qed
  have kpre: "map fst (Counter xs) = map fst pre @ tc # map fst post"
    unfolding ccs split by simp
  have "tc \<notin> set (map fst pre)" using keys(1) unfolding kpre by auto
  then have "takeWhile (\<lambda>x. x \<noteq> tc) (map fst (Counter xs)) = map fst pre"
    unfolding kpre by (rule takeWhile_distinct_key)
  then have before: "set (takeWhile (\<lambda>x. x \<noteq> tc) xs) = set (map fst pre)"
    using Counter_first_occurrences [OF tc] by simp
  have lt: "count_list xs k < n" if "k \<in> set (takeWhile (\<lambda>x. x \<noteq> tc) xs)" for k
  proof -
    from that before obtain j where j: "(k, j) \<in> set pre" by auto
    then have "(k, j) \<in> set (Counter xs)" unfolding ccs split by simp
    then have "j = count_list xs k" using Counter_member by blast
    then show ?thesis using pre j by auto
  qed
  show ?thesis
    using ccs m tc le lt unfolding n by blast
qed

lemma assign_consensus_replicon_nonempty:
  assumes "xs \<noteq> []"
  shows "\<exists>tc a.
      tc \<in> set xs
      \<and> (\<forall>k. count_list xs k \<le> count_list xs tc)
      \<and> (\<forall>k\<in>set (takeWhile (\<lambda>x. x \<noteq> tc) xs). count_list xs k < count_list xs tc)
      \<and> assign_consensus_replicon xs threshold =
          Inr \<lparr>consensus_replicon =
                 (if fle threshold
                       (round_double (of_nat (count_list xs tc) / of_nat (length xs)))
                  then tc else ''multi-replicon''),
               top_replicon = tc,
               consensus_fraction =
                 round3 (round_double (of_nat (count_list xs tc) / of_nat (length xs))),
               n_isolates = length xs,
               all_replicons = a\<rparr>"
proof -
  from most_common_first [OF assms] obtain c cs tc where
    ccs: "Counter xs = c # cs" and m: "max_first c cs = (tc, count_list xs tc)"
    and tc: "tc \<in> set xs"
    and le: "\<forall>k. count_list xs k \<le> count_list xs tc"
    and lt: "\<forall>k\<in>set (takeWhile (\<lambda>x. x \<noteq> tc) xs). count_list xs k < count_list xs tc"
    by blast
  have r: "assign_consensus_replicon xs threshold =
          Inr \<lparr>consensus_replicon =
                 (if fle threshold
                       (round_double (of_nat (count_list xs tc) / of_nat (length xs)))
                  then tc else ''multi-replicon''),
               top_replicon = tc,
               consensus_fraction =
                 round3 (round_double (of_nat (count_list xs tc) / of_nat (length xs))),
               n_isolates = length xs,
               all_replicons =
                 join '','' (map (\<lambda>(rep, cnt). rep @ ''('' @ str_nat cnt @ '')'')
                               (most_common (c # cs)))\<rparr>"
    using assms ccs m
    by (simp add: assign_consensus_replicon_def Let_def int_truediv_def del: str_nat.simps)
  show ?thesis
    using tc le lt r by blast
qed

lemma fle_09_09: "fle (round_double (9 / 10)) (round_double (9 / 10))"
  by code_simp

lemma not_fle_095_09: "\<not> fle (round_double (95 / 100)) (round_double (9 / 10))"
  by code_simp

lemma round3_09: "round3 (round_double (9 / 10)) = round_double (9 / 10)"
  by code_simp

lemma nine_lp54_one_lp17:
  "Counter (replicate 9 ''lp54'' @ [''lp17'']) = [(''lp54'', 9), (''lp17'', 1)]
   \<and> join '','' (map (\<lambda>(rep, cnt). rep @ ''('' @ str_nat cnt @ '')'')
                   (most_common [(''lp54'', 9), (''lp17'', 1)])) = ''lp54(9),lp17(1)''"
  by code_simp

lemma not_fle_09_two_thirds: "\<not> fle (round_double (9 / 10)) (round_double (2 / 3))"
  by code_simp

lemma round_double_third: "round_double (1 / 3) = Fin (6004799503160661 / 18014398509481984)"
  by code_simp

lemma round3_third:
  "round3 (Fin (6004799503160661 / 18014398509481984))
     = Fin (5998794703657501 / 18014398509481984)"
  by code_simp

lemma not_fle_09_third:
  "\<not> fle (round_double (9 / 10)) (Fin (6004799503160661 / 18014398509481984))"
  by code_simp

lemma three_calls:
  "Counter [''lp54'', ''lp17'', ''cp26''] = [(''lp54'', 1), (''lp17'', 1), (''cp26'', 1)]
   \<and> join '','' (map (\<lambda>(rep, cnt). rep @ ''('' @ str_nat cnt @ '')'')
                   (most_common [(''lp54'', 1), (''lp17'', 1), (''cp26'', 1)]))
       = ''lp54(1),lp17(1),cp26(1)''"
  by code_simp

text \<open>
  C6 (amended). For a gene cluster with N > 0 member calls and threshold \<open>threshold\<close>,
  \<open>top_replicon\<close> is a most frequent call, the first encountered among the most frequent
  ones (every call met before its first occurrence is strictly less frequent);
  \<open>consensus_fraction\<close> is \<open>top_count / N\<close> rounded to three decimals; \<open>consensus_replicon\<close>
  is \<open>top_replicon\<close> if the unrounded \<open>top_count / N\<close> is at least the threshold, and
  \<open>multi-replicon\<close> otherwise. When N = 0 all outputs are \<open>unknown\<close>, with fraction 0.0 and
  0 isolates. For nine calls \<open>lp54\<close> and one \<open>lp17\<close>, the threshold 0.9 gives consensus
  \<open>lp54\<close> with fraction 0.9, and the threshold 0.95 gives \<open>multi-replicon\<close>.
\<close>

theorem assign_consensus_replicon_result:
  "(replicon_list = [] \<longrightarrow>
      assign_consensus_replicon replicon_list threshold =
        Inr \<lparr>consensus_replicon = ''unknown'', top_replicon = ''unknown'',
             consensus_fraction = Fin 0, n_isolates = 0, all_replicons = ''unknown''\<rparr>)
   \<and> (replicon_list \<noteq> [] \<longrightarrow>
        (\<exists>tc a.
           tc \<in> set replicon_list
           \<and> (\<forall>k. count_list replicon_list k \<le> count_list replicon_list tc)
           \<and> (\<forall>k\<in>set (takeWhile (\<lambda>x. x \<noteq> tc) replicon_list).
                 count_list replicon_list k < count_list replicon_list tc)
           \<and> assign_consensus_replicon replicon_list threshold =
               Inr \<lparr>consensus_replicon =
                      (if fle threshold
                            (round_double (of_nat (count_list replicon_list tc)
                                           / of_nat (length replicon_list)))
                       then tc else ''multi-replicon''),
                    top_replicon = tc,
                    consensus_fraction =
                      round3 (round_double (of_nat (count_list replicon_list tc)
                                            / of_nat (length replicon_list))),
                    n_isolates = length replicon_list,
                    all_replicons = a\<rparr>))
   \<and> assign_consensus_replicon (replicate 9 ''lp54'' @ [''lp17'']) (round_double (9 / 10)) =
        Inr \<lparr>consensus_replicon = ''lp54'', top_replicon = ''lp54'',
             consensus_fraction = round_double (9 / 10), n_isolates = 10,
             all_replicons = ''lp54(9),lp17(1)''\<rparr>
   \<and> assign_consensus_replicon (replicate 9 ''lp54'' @ [''lp17'']) (round_double (95 / 100)) =
        Inr \<lparr>consensus_replicon = ''multi-replicon'', top_replicon = ''lp54'',
             consensus_fraction = round_double (9 / 10), n_isolates = 10,
             all_replicons = ''lp54(9),lp17(1)''\<rparr>"
proof (intro conjI impI)
  show "assign_consensus_replicon replicon_list threshold =
        Inr \<lparr>consensus_replicon = ''unknown'', top_replicon = ''unknown'',
             consensus_fraction = Fin 0, n_isolates = 0, all_replicons = ''unknown''\<rparr>"
    if "replicon_list = []"
    using that by (simp add: assign_consensus_replicon_def)
  show "\<exists>tc a.
           tc \<in> set replicon_list
           \<and> (\<forall>k. count_list replicon_list k \<le> count_list replicon_list tc)
           \<and> (\<forall>k\<in>set (takeWhile (\<lambda>x. x \<noteq> tc) replicon_list).
                 count_list replicon_list k < count_list replicon_list tc)
           \<and> assign_consensus_replicon replicon_list threshold =
               Inr \<lparr>consensus_replicon =
                      (if fle threshold
                            (round_double (of_nat (count_list replicon_list tc)
                                           / of_nat (length replicon_list)))
                       then tc else ''multi-replicon''),
                    top_replicon = tc,
                    consensus_fraction =
                      round3 (round_double (of_nat (count_list replicon_list tc)
                                            / of_nat (length replicon_list))),
                    n_isolates = length replicon_list,
                    all_replicons = a\<rparr>"
    if "replicon_list \<noteq> []"
    using that by (rule assign_consensus_replicon_nonempty)
  show "assign_consensus_replicon (replicate 9 ''lp54'' @ [''lp17'']) (round_double (9 / 10)) =
        Inr \<lparr>consensus_replicon = ''lp54'', top_replicon = ''lp54'',
             consensus_fraction = round_double (9 / 10), n_isolates = 10,
             all_replicons = ''lp54(9),lp17(1)''\<rparr>"
    using nine_lp54_one_lp17 fle_09_09 round3_09
    by (simp add: assign_consensus_replicon_def int_truediv_def del: str_nat.simps)
  show "assign_consensus_replicon (replicate 9 ''lp54'' @ [''lp17'']) (round_double (95 / 100)) =
        Inr \<lparr>consensus_replicon = ''multi-replicon'', top_replicon = ''lp54'',
             consensus_fraction = round_double (9 / 10), n_isolates = 10,
             all_replicons = ''lp54(9),lp17(1)''\<rparr>"
    using nine_lp54_one_lp17 not_fle_095_09 round3_09
    by (simp add: assign_consensus_replicon_def int_truediv_def del: str_nat.simps)
qed

theorem assign_consensus_replicon_witness:
  "assign_consensus_replicon [] (round_double (9 / 10)) =
     Inr \<lparr>consensus_replicon = ''unknown'', top_replicon = ''unknown'',
          consensus_fraction = Fin 0, n_isolates = 0, all_replicons = ''unknown''\<rparr>
   \<and> (\<exists>a. assign_consensus_replicon [''cp26'', ''lp54'', ''cp26''] (round_double (9 / 10)) =
          Inr \<lparr>consensus_replicon = ''multi-replicon'', top_replicon = ''cp26'',
               consensus_fraction = round3 (round_double (2 / 3)), n_isolates = 3,
               all_replicons = a\<rparr>)"
proof -
  let ?xs = "[''cp26'', ''lp54'', ''cp26'']"
  let ?t = "round_double (9 / 10)"
  have e: "([] :: string list) = []" by simp
  have 1: "assign_consensus_replicon [] ?t =
     Inr \<lparr>consensus_replicon = ''unknown'', top_replicon = ''unknown'',
          consensus_fraction = Fin 0, n_isolates = 0, all_replicons = ''unknown''\<rparr>"
    using e assign_consensus_replicon_result [of "[]" ?t] by blast
  have n: "?xs \<noteq> []" by simp
  from n assign_consensus_replicon_result [of ?xs ?t] obtain tc a where
    tc: "tc \<in> set ?xs"
    and le: "\<forall>k. count_list ?xs k \<le> count_list ?xs tc"
    and r: "assign_consensus_replicon ?xs ?t =
               Inr \<lparr>consensus_replicon =
                      (if fle ?t (round_double (of_nat (count_list ?xs tc) / of_nat (length ?xs)))
                       then tc else ''multi-replicon''),
                    top_replicon = tc,
                    consensus_fraction =
                      round3 (round_double (of_nat (count_list ?xs tc) / of_nat (length ?xs))),
                    n_isolates = length ?xs,
                    all_replicons = a\<rparr>"
    by blast
  have "count_list ?xs ''cp26'' \<le> count_list ?xs tc" using le by blast
  then have t: "tc = ''cp26''" using tc by (auto split: if_splits)
  have "assign_consensus_replicon ?xs ?t =
          Inr \<lparr>consensus_replicon = ''multi-replicon'', top_replicon = ''cp26'',
               consensus_fraction = round3 (round_double (2 / 3)), n_isolates = 3,
               all_replicons = a\<rparr>"
    using r not_fle_09_two_thirds unfolding t by simp
  then show ?thesis using 1 by blast
qed

text \<open>The claim as first stated has \<open>consensus_fraction = top_count / N\<close>. For three
  calls that differ, \<open>top_count / N\<close> is the float 1/3 and the fraction returned is the
  float 0.333.\<close>

theorem assign_consensus_replicon_rounds:
  "assign_consensus_replicon [''lp54'', ''lp17'', ''cp26''] (round_double (9 / 10)) =
     Inr \<lparr>consensus_replicon = ''multi-replicon'', top_replicon = ''lp54'',
          consensus_fraction = Fin (5998794703657501 / 18014398509481984), n_isolates = 3,
          all_replicons = ''lp54(1),lp17(1),cp26(1)''\<rparr>
   \<and> int_truediv 1 3 = Inr (Fin (6004799503160661 / 18014398509481984))
   \<and> Fin (5998794703657501 / 18014398509481984) \<noteq> Fin (6004799503160661 / 18014398509481984)"
  using three_calls round_double_third round3_third not_fle_09_third
  by (simp add: assign_consensus_replicon_def int_truediv_def del: str_nat.simps)

end
